theory Spec2Isabelle
  imports Main "HOL-Library.Char_ord" "HOL-Library.Countable"
begin

section \<open>The BQL parser of SensorBee: AST fragments and the parse stack\<close>

text \<open>
  The repository's parser is a PEG grammar (\<^verbatim>\<open>bql.peg\<close>, compiled by the
  \<^verbatim>\<open>peg\<close> tool of pointlander) whose semantic actions drive a stack of tagged
  fragments (\<^verbatim>\<open>parseStack\<close>). The grammar and the test of
  \<^verbatim>\<open>AssembleBinaryOperation\<close> are among the sources; the Go file of the stack
  operations and of the AST constructors is not. The component names below are the ones
  the grammar's actions and the test use.
\<close>

datatype Operator =
  Or | And | Equal | Less | LessOrEqual | Greater | GreaterOrEqual | NotEqual
  | Plus | Minus | Multiply | Divide | Modulo

datatype Emitter = Istream | Dstream | Rstream

datatype RangeUnit = Tuples | Seconds

text \<open>An optional clause is either absent (the explicit empty-clause marker) or present.\<close>

datatype 'a clause = Absent | Present 'a

text \<open>
  Expression nodes: the operands of the expression ladder, that is what \<^verbatim>\<open>baseExpr\<close>
  and the five binary levels of the grammar leave on the stack. Numeric and float
  literal nodes keep the matched text: their constructors (\<^verbatim>\<open>NewNumericLiteral\<close>,
  \<^verbatim>\<open>NewFloatLiteral\<close>) are not among the sources.
\<close>

datatype expr =
    ColumnName string
  | NumericLiteral string
  | FloatLiteral string
  | BoolLiteral bool
  | Wildcard
  | StringLiteral string
  | BinaryOpAST Operator expr expr
  | FuncAppAST string "expr list"

text \<open>
  A stack payload is an untyped value in the Go code (\<^verbatim>\<open>interface{}\<close>); here it
  is one closed sum with a variant per leaf token and per composite node, as the spec's
  design notes describe it. \<open>Expr\<close> tags an expression node; relations, names and
  parameters are held by their text.
\<close>

datatype component =
    Raw string
  | Relation string
  | FuncName string
  | EmitterTok Emitter
  | RangeUnitTok RangeUnit
  | Op Operator
  | SourceSinkName string
  | SourceSinkType string
  | SourceSinkParamKey string
  | SourceSinkParamVal string
  | Expr expr
  | ExpressionsAST "expr list"
  | ProjectionsAST "expr list"
  | EmitProjectionsAST Emitter "expr list"
  | RangeAST string RangeUnit
  | WindowedFromAST "(string list \<times> string \<times> RangeUnit) clause"
  | FromAST "string list clause"
  | FilterAST "expr clause"
  | GroupingAST "expr list clause"
  | HavingAST "expr clause"
  | SourceSinkParamAST string string
  | SourceSinkSpecsAST "(string \<times> string) list"
  | SelectStmt "expr list" "string list clause" "expr clause" "expr list clause"
      "expr clause"
  | CreateStreamAsSelectStmt string Emitter "expr list"
      "(string list \<times> string \<times> RangeUnit) clause" "expr clause" "expr list clause"
      "expr clause"
  | CreateSourceStmt string string "(string \<times> string) list"
  | CreateSinkStmt string string "(string \<times> string) list"
  | CreateStreamFromSourceStmt string string
  | CreateStreamFromSourceExtStmt string string "(string \<times> string) list"
  | InsertIntoSelectStmt string "expr list" "string list clause" "expr clause"
      "expr list clause" "expr clause"

datatype error = SyntaxError | InvariantViolation

record stackElement =
  el_begin :: nat
  el_end :: nat
  comp :: component

text \<open>The stack, top first.\<close>

type_synonym parseStack = "stackElement list"

definition PushComponent :: "parseStack \<Rightarrow> nat \<Rightarrow> nat \<Rightarrow> component \<Rightarrow> parseStack" where
  "PushComponent ps b e c = \<lparr>el_begin = b, el_end = e, comp = c\<rparr> # ps"

definition Peek :: "parseStack \<Rightarrow> stackElement option" where
  "Peek ps = (case ps of [] \<Rightarrow> None | f # _ \<Rightarrow> Some f)"

text \<open>
  Modelled from the spec: the span selection of the assembly operation contract, whose Go
  code (the stack file of the parser package) is not among the sources. The spec says an
  operation pops ``every fragment whose span lies within \<open>[begin, end)\<close> (they form a
  contiguous top-of-stack suffix)'', and that an absent optional clause has 0 fragments
  in its zero-length span. A fragment lies within \<open>[b, e)\<close> when it starts at or after
  \<open>b\<close>, ends at or before \<open>e\<close> and reaches beyond \<open>b\<close>: the zero-length marker that an
  absent clause left at offset \<open>b\<close> belongs to the clause before, not to the span that
  starts at \<open>b\<close>.
\<close>

definition within :: "nat \<Rightarrow> nat \<Rightarrow> stackElement \<Rightarrow> bool" where
  "within b e f \<longleftrightarrow> b \<le> el_begin f \<and> el_end f \<le> e \<and> b < el_end f"

text \<open>
  Modelled from the spec: pops the fragments of the span from the top of the stack and
  returns their payloads in left-to-right order, with the remaining stack.
\<close>

fun collectElements ::
  "parseStack \<Rightarrow> nat \<Rightarrow> nat \<Rightarrow> component list \<Rightarrow> component list \<times> parseStack" where
  "collectElements [] b e acc = (acc, [])"
| "collectElements (f # ps) b e acc =
     (if within b e f then collectElements ps b e (comp f # acc) else (acc, f # ps))"

text \<open>
  Modelled from the spec: \<^verbatim>\<open>AssembleBinaryOperation\<close> (the stack file is not among
  the sources; its test is). By fragment count in the span: 1 operand is pushed back
  as it is under the span; 3 = operand, operator, operand become one binary node
  \<open>{op, left, right}\<close>; any other count or shape is an invariant violation (the Go code
  panics).
\<close>

fun is_operand :: "component \<Rightarrow> bool" where
  "is_operand (Expr _) = True"
| "is_operand _ = False"

fun is_operator :: "component \<Rightarrow> bool" where
  "is_operator (Op _) = True"
| "is_operator _ = False"

definition AssembleBinaryOperation :: "parseStack \<Rightarrow> nat \<Rightarrow> nat \<Rightarrow> error + parseStack" where
  "AssembleBinaryOperation ps b e =
     (case collectElements ps b e [] of
        ([x], rest) \<Rightarrow> Inr (PushComponent rest b e x)
      | ([l, oper, r], rest) \<Rightarrow>
          (case (l, oper, r) of
             (Expr x, Op bop, Expr y) \<Rightarrow>
               Inr (PushComponent rest b e (Expr (BinaryOpAST bop x y)))
           | _ \<Rightarrow> Inl InvariantViolation)
      | _ \<Rightarrow> Inl InvariantViolation)"

section \<open>The other reductions\<close>

text \<open>
  Modelled from the spec: the reductions of the optional clauses, the variadic lists and
  the fixed-arity composites (the stack file of the parser package is not among the
  sources). An optional clause with 0 fragments in its span pushes the empty-clause
  marker \<open>Absent\<close>; a variadic list collects the items of its span in left-to-right
  order; a fixed-arity composite pops its declared sub-parts from the top; any other
  count or shape is an invariant violation.
\<close>

fun exprs_of :: "component list \<Rightarrow> expr list option" where
  "exprs_of [] = Some []"
| "exprs_of (Expr x # cs) = map_option (\<lambda>xs. x # xs) (exprs_of cs)"
| "exprs_of (_ # cs) = None"

fun relations_of :: "component list \<Rightarrow> string list option" where
  "relations_of [] = Some []"
| "relations_of (Relation r # cs) = map_option (\<lambda>rs. r # rs) (relations_of cs)"
| "relations_of (_ # cs) = None"

fun params_of :: "component list \<Rightarrow> (string \<times> string) list option" where
  "params_of [] = Some []"
| "params_of (SourceSinkParamAST k v # cs) = map_option (\<lambda>kvs. (k, v) # kvs) (params_of cs)"
| "params_of (_ # cs) = None"

definition AssembleProjections :: "parseStack \<Rightarrow> nat \<Rightarrow> nat \<Rightarrow> error + parseStack" where
  "AssembleProjections ps b e =
     (case collectElements ps b e [] of
        ([], rest) \<Rightarrow> Inl InvariantViolation
      | (elems, rest) \<Rightarrow>
          (case exprs_of elems of
             None \<Rightarrow> Inl InvariantViolation
           | Some xs \<Rightarrow> Inr (PushComponent rest b e (ProjectionsAST xs))))"

definition AssembleExpressions :: "parseStack \<Rightarrow> nat \<Rightarrow> nat \<Rightarrow> error + parseStack" where
  "AssembleExpressions ps b e =
     (case collectElements ps b e [] of
        ([], rest) \<Rightarrow> Inl InvariantViolation
      | (elems, rest) \<Rightarrow>
          (case exprs_of elems of
             None \<Rightarrow> Inl InvariantViolation
           | Some xs \<Rightarrow> Inr (PushComponent rest b e (ExpressionsAST xs))))"

definition AssembleSourceSinkSpecs :: "parseStack \<Rightarrow> nat \<Rightarrow> nat \<Rightarrow> error + parseStack" where
  "AssembleSourceSinkSpecs ps b e =
     (case collectElements ps b e [] of
        (elems, rest) \<Rightarrow>
          (case params_of elems of
             None \<Rightarrow> Inl InvariantViolation
           | Some kvs \<Rightarrow> Inr (PushComponent rest b e (SourceSinkSpecsAST kvs))))"

definition AssembleFrom :: "parseStack \<Rightarrow> nat \<Rightarrow> nat \<Rightarrow> error + parseStack" where
  "AssembleFrom ps b e =
     (case collectElements ps b e [] of
        ([], rest) \<Rightarrow> Inr (PushComponent rest b e (FromAST Absent))
      | (elems, rest) \<Rightarrow>
          (case relations_of elems of
             None \<Rightarrow> Inl InvariantViolation
           | Some rs \<Rightarrow> Inr (PushComponent rest b e (FromAST (Present rs)))))"

definition AssembleFilter :: "parseStack \<Rightarrow> nat \<Rightarrow> nat \<Rightarrow> error + parseStack" where
  "AssembleFilter ps b e =
     (case collectElements ps b e [] of
        ([], rest) \<Rightarrow> Inr (PushComponent rest b e (FilterAST Absent))
      | ([Expr x], rest) \<Rightarrow> Inr (PushComponent rest b e (FilterAST (Present x)))
      | _ \<Rightarrow> Inl InvariantViolation)"

definition AssembleGrouping :: "parseStack \<Rightarrow> nat \<Rightarrow> nat \<Rightarrow> error + parseStack" where
  "AssembleGrouping ps b e =
     (case collectElements ps b e [] of
        ([], rest) \<Rightarrow> Inr (PushComponent rest b e (GroupingAST Absent))
      | (elems, rest) \<Rightarrow>
          (case exprs_of elems of
             None \<Rightarrow> Inl InvariantViolation
           | Some xs \<Rightarrow> Inr (PushComponent rest b e (GroupingAST (Present xs)))))"

definition AssembleHaving :: "parseStack \<Rightarrow> nat \<Rightarrow> nat \<Rightarrow> error + parseStack" where
  "AssembleHaving ps b e =
     (case collectElements ps b e [] of
        ([], rest) \<Rightarrow> Inr (PushComponent rest b e (HavingAST Absent))
      | ([Expr x], rest) \<Rightarrow> Inr (PushComponent rest b e (HavingAST (Present x)))
      | _ \<Rightarrow> Inl InvariantViolation)"

definition AssembleWindowedFrom :: "parseStack \<Rightarrow> nat \<Rightarrow> nat \<Rightarrow> error + parseStack" where
  "AssembleWindowedFrom ps b e =
     (case collectElements ps b e [] of
        ([], rest) \<Rightarrow> Inr (PushComponent rest b e (WindowedFromAST Absent))
      | (elems, rest) \<Rightarrow>
          (case (relations_of (butlast elems), last elems) of
             (Some (r # rs), RangeAST n u) \<Rightarrow>
               Inr (PushComponent rest b e (WindowedFromAST (Present (r # rs, n, u))))
           | _ \<Rightarrow> Inl InvariantViolation))"

text \<open>
  The fixed-arity reductions get no span from the grammar: they pop their sub-parts from
  the top, and the node they push spans from the first sub-part to the last.
\<close>

definition AssembleRange :: "parseStack \<Rightarrow> error + parseStack" where
  "AssembleRange ps =
     (case ps of
        u # n # rest \<Rightarrow>
          (case (comp n, comp u) of
             (Expr (NumericLiteral k), RangeUnitTok ru) \<Rightarrow>
               Inr (PushComponent rest (el_begin n) (el_end u) (RangeAST k ru))
           | _ \<Rightarrow> Inl InvariantViolation)
      | _ \<Rightarrow> Inl InvariantViolation)"

definition AssembleFuncApp :: "parseStack \<Rightarrow> error + parseStack" where
  "AssembleFuncApp ps =
     (case ps of
        xs # f # rest \<Rightarrow>
          (case (comp f, comp xs) of
             (FuncName name, ExpressionsAST args) \<Rightarrow>
               Inr (PushComponent rest (el_begin f) (el_end xs) (Expr (FuncAppAST name args)))
           | _ \<Rightarrow> Inl InvariantViolation)
      | _ \<Rightarrow> Inl InvariantViolation)"

definition AssembleSourceSinkParam :: "parseStack \<Rightarrow> error + parseStack" where
  "AssembleSourceSinkParam ps =
     (case ps of
        v # k # rest \<Rightarrow>
          (case (comp k, comp v) of
             (SourceSinkParamKey key, SourceSinkParamVal val) \<Rightarrow>
               Inr (PushComponent rest (el_begin k) (el_end v) (SourceSinkParamAST key val))
           | _ \<Rightarrow> Inl InvariantViolation)
      | _ \<Rightarrow> Inl InvariantViolation)"

definition AssembleEmitProjections :: "parseStack \<Rightarrow> error + parseStack" where
  "AssembleEmitProjections ps =
     (case ps of
        pr # em # rest \<Rightarrow>
          (case (comp em, comp pr) of
             (EmitterTok m, ProjectionsAST xs) \<Rightarrow>
               Inr (PushComponent rest (el_begin em) (el_end pr) (EmitProjectionsAST m xs))
           | _ \<Rightarrow> Inl InvariantViolation)
      | _ \<Rightarrow> Inl InvariantViolation)"

definition AssembleSelect :: "parseStack \<Rightarrow> error + parseStack" where
  "AssembleSelect ps =
     (case ps of
        h # g # w # f # pr # rest \<Rightarrow>
          (case (comp pr, comp f, comp w, comp g, comp h) of
             (ProjectionsAST xs, FromAST rels, FilterAST flt, GroupingAST grp, HavingAST hav) \<Rightarrow>
               Inr (PushComponent rest (el_begin pr) (el_end h) (SelectStmt xs rels flt grp hav))
           | _ \<Rightarrow> Inl InvariantViolation)
      | _ \<Rightarrow> Inl InvariantViolation)"

definition AssembleCreateStreamAsSelect :: "parseStack \<Rightarrow> error + parseStack" where
  "AssembleCreateStreamAsSelect ps =
     (case ps of
        h # g # w # f # pr # r # rest \<Rightarrow>
          (case (comp r, comp pr, comp f, comp w, comp g, comp h) of
             (Relation name, EmitProjectionsAST m xs, WindowedFromAST win, FilterAST flt,
              GroupingAST grp, HavingAST hav) \<Rightarrow>
               Inr (PushComponent rest (el_begin r) (el_end h)
                      (CreateStreamAsSelectStmt name m xs win flt grp hav))
           | _ \<Rightarrow> Inl InvariantViolation)
      | _ \<Rightarrow> Inl InvariantViolation)"

definition AssembleCreateSource :: "parseStack \<Rightarrow> error + parseStack" where
  "AssembleCreateSource ps =
     (case ps of
        sp # t # n # rest \<Rightarrow>
          (case (comp n, comp t, comp sp) of
             (SourceSinkName name, SourceSinkType ty, SourceSinkSpecsAST kvs) \<Rightarrow>
               Inr (PushComponent rest (el_begin n) (el_end sp) (CreateSourceStmt name ty kvs))
           | _ \<Rightarrow> Inl InvariantViolation)
      | _ \<Rightarrow> Inl InvariantViolation)"

definition AssembleCreateSink :: "parseStack \<Rightarrow> error + parseStack" where
  "AssembleCreateSink ps =
     (case ps of
        sp # t # n # rest \<Rightarrow>
          (case (comp n, comp t, comp sp) of
             (SourceSinkName name, SourceSinkType ty, SourceSinkSpecsAST kvs) \<Rightarrow>
               Inr (PushComponent rest (el_begin n) (el_end sp) (CreateSinkStmt name ty kvs))
           | _ \<Rightarrow> Inl InvariantViolation)
      | _ \<Rightarrow> Inl InvariantViolation)"

definition AssembleCreateStreamFromSource :: "parseStack \<Rightarrow> error + parseStack" where
  "AssembleCreateStreamFromSource ps =
     (case ps of
        n # r # rest \<Rightarrow>
          (case (comp r, comp n) of
             (Relation rel, SourceSinkName name) \<Rightarrow>
               Inr (PushComponent rest (el_begin r) (el_end n)
                      (CreateStreamFromSourceStmt rel name))
           | _ \<Rightarrow> Inl InvariantViolation)
      | _ \<Rightarrow> Inl InvariantViolation)"

definition AssembleCreateStreamFromSourceExt :: "parseStack \<Rightarrow> error + parseStack" where
  "AssembleCreateStreamFromSourceExt ps =
     (case ps of
        sp # t # r # rest \<Rightarrow>
          (case (comp r, comp t, comp sp) of
             (Relation rel, SourceSinkType ty, SourceSinkSpecsAST kvs) \<Rightarrow>
               Inr (PushComponent rest (el_begin r) (el_end sp)
                      (CreateStreamFromSourceExtStmt rel ty kvs))
           | _ \<Rightarrow> Inl InvariantViolation)
      | _ \<Rightarrow> Inl InvariantViolation)"

definition AssembleInsertIntoSelect :: "parseStack \<Rightarrow> error + parseStack" where
  "AssembleInsertIntoSelect ps =
     (case ps of
        sel # n # rest \<Rightarrow>
          (case (comp n, comp sel) of
             (SourceSinkName name, SelectStmt xs rels flt grp hav) \<Rightarrow>
               Inr (PushComponent rest (el_begin n) (el_end sel)
                      (InsertIntoSelectStmt name xs rels flt grp hav))
           | _ \<Rightarrow> Inl InvariantViolation)
      | _ \<Rightarrow> Inl InvariantViolation)"


section \<open>Parsing expressions\<close>

text \<open>
  The grammar is written for the \<^verbatim>\<open>peg\<close> tool, which is not part of the repository.
  Its expressions are modelled as data: \<open>'...'\<close> is a literal, \<open>"..."\<close> a literal that
  matches letters in either case, \<open>[a-z]\<close> a character class, \<open>[[a-z]]\<close> a class that
  matches letters in either case, \<open>.\<close> any character, \<open>e1 e2\<close> a sequence, \<open>e1 / e2\<close>
  an ordered choice, \<open>e*\<close>, \<open>e+\<close>, \<open>e?\<close> the greedy repetitions and option, \<open>!e\<close> the
  negative lookahead, \<open>< e >\<close> the capture that sets \<open>begin\<close> and \<open>end\<close>, and
  \<open>{ ... }\<close> an action. The only recursion of the grammar goes through the rule
  \<^verbatim>\<open>Expression\<close>; \<open>PCallExpression\<close> is the call of that rule, and every other rule
  name stands for its body.
\<close>

text \<open>
  An action is the Go block in curly braces: it sees the buffer, the \<open>begin\<close> and \<open>end\<close>
  of the last capture and the parse stack \<open>p\<close>, and either returns the new stack or
  panics.
\<close>

type_synonym action = "string \<Rightarrow> nat \<Rightarrow> nat \<Rightarrow> parseStack \<Rightarrow> error + parseStack"

datatype pexpr =
    PLit string
  | PILit string
  | PClass "(char \<times> char) list"
  | PIClass "(char \<times> char) list"
  | PDot
  | PSeq "pexpr list"
  | PAlt "pexpr list"
  | PStar pexpr
  | PPlus pexpr
  | POpt pexpr
  | PNot pexpr
  | PCap pexpr
  | PAct action
  | PCallExpression

datatype event = ECapture nat nat | EAction action

text \<open>
  A match attempt fails, or succeeds with the rest of the input, the new position and
  the captures and actions of the successful path, in the order they were completed.
\<close>

datatype mresult = Fail | Match string nat "event list"

definition to_upper :: "char \<Rightarrow> char" where
  "to_upper c =
     (if CHR ''a'' \<le> c \<and> c \<le> CHR ''z'' then char_of (of_char c - (32 :: nat)) else c)"

definition to_lower :: "char \<Rightarrow> char" where
  "to_lower c =
     (if CHR ''A'' \<le> c \<and> c \<le> CHR ''Z'' then char_of (of_char c + (32 :: nat)) else c)"

definition ci_eq :: "char \<Rightarrow> char \<Rightarrow> bool" where
  "ci_eq x c \<longleftrightarrow> c = to_lower x \<or> c = to_upper x"

definition in_range :: "char \<times> char \<Rightarrow> char \<Rightarrow> bool" where
  "in_range r c \<longleftrightarrow> fst r \<le> c \<and> c \<le> snd r"

definition in_range_ci :: "char \<times> char \<Rightarrow> char \<Rightarrow> bool" where
  "in_range_ci r c \<longleftrightarrow>
     in_range (to_lower (fst r), to_lower (snd r)) c
     \<or> in_range (to_upper (fst r), to_upper (snd r)) c"

fun match_lit :: "(char \<Rightarrow> char \<Rightarrow> bool) \<Rightarrow> string \<Rightarrow> string \<Rightarrow> string option" where
  "match_lit eq [] inp = Some inp"
| "match_lit eq (x # w) [] = None"
| "match_lit eq (x # w) (c # inp) = (if eq x c then match_lit eq w inp else None)"

definition substr :: "string \<Rightarrow> nat \<Rightarrow> nat \<Rightarrow> string" where
  "substr buffer b e = take (e - b) (drop b buffer)"

subsection \<open>Constructors of the leaf nodes\<close>

definition NewRelation :: "string \<Rightarrow> component" where
  "NewRelation s = Relation s"

definition NewColumnName :: "string \<Rightarrow> component" where
  "NewColumnName s = Expr (ColumnName s)"

definition NewNumericLiteral :: "string \<Rightarrow> component" where
  "NewNumericLiteral s = Expr (NumericLiteral s)"

definition NewFloatLiteral :: "string \<Rightarrow> component" where
  "NewFloatLiteral s = Expr (FloatLiteral s)"

definition NewBoolLiteral :: "bool \<Rightarrow> component" where
  "NewBoolLiteral b = Expr (BoolLiteral b)"

definition NewWildcard :: component where
  "NewWildcard = Expr Wildcard"

text \<open>
  Modelled from the spec: \<^verbatim>\<open>NewStringLiteral\<close> (the AST file is not among the
  sources). The value of a string literal is its text with the delimiters removed and
  each embedded \<open>''\<close> replaced by a single quote.
\<close>

fun unescape :: "string \<Rightarrow> string" where
  "unescape (a # b # r) =
     (if a = CHR 0x27 \<and> b = CHR 0x27 then CHR 0x27 # unescape r else a # unescape (b # r))"
| "unescape r = r"

definition NewStringLiteral :: "string \<Rightarrow> component" where
  "NewStringLiteral s = Expr (StringLiteral (unescape (butlast (tl s))))"

subsection \<open>The shapes of the actions\<close>

definition PushText :: "(string \<Rightarrow> component) \<Rightarrow> action" where
  "PushText f = (\<lambda>buffer b e p. Inr (PushComponent p b e (f (substr buffer b e))))"

definition Push :: "component \<Rightarrow> action" where
  "Push c = (\<lambda>buffer b e p. Inr (PushComponent p b e c))"

definition Span :: "(parseStack \<Rightarrow> nat \<Rightarrow> nat \<Rightarrow> error + parseStack) \<Rightarrow> action" where
  "Span f = (\<lambda>buffer b e p. f p b e)"

definition NoSpan :: "(parseStack \<Rightarrow> error + parseStack) \<Rightarrow> action" where
  "NoSpan f = (\<lambda>buffer b e p. f p)"

section \<open>The grammar \<^verbatim>\<open>bql.peg\<close>\<close>

text \<open>
  Rule by rule, leaves first. A rule whose name is also the name of an AST node carries
  the suffix \<open>_rule\<close>.
\<close>

subsection \<open>Basic building blocks\<close>

definition sp :: pexpr where
  "sp = PStar (PAlt [PLit '' '', PLit [CHR 0x09], PLit [CHR 0x0A]])"

definition ident :: pexpr where
  "ident = PSeq [PIClass [(CHR ''a'', CHR ''z'')],
                 PStar (PAlt [PIClass [(CHR ''a'', CHR ''z'')],
                              PClass [(CHR ''0'', CHR ''9'')],
                              PLit ''_''])]"

definition Relation_rule :: pexpr where
  "Relation_rule = PSeq [PCap ident, PAct (PushText NewRelation)]"

definition ColumnName_rule :: pexpr where
  "ColumnName_rule = PSeq [PCap ident, PAct (PushText NewColumnName)]"

definition NumericLiteral_rule :: pexpr where
  "NumericLiteral_rule =
     PSeq [PCap (PSeq [POpt (PLit ''-''), PPlus (PClass [(CHR ''0'', CHR ''9'')])]),
           PAct (PushText NewNumericLiteral)]"

definition FloatLiteral_rule :: pexpr where
  "FloatLiteral_rule =
     PSeq [PCap (PSeq [POpt (PLit ''-''), PPlus (PClass [(CHR ''0'', CHR ''9'')]),
                       PLit ''.'', PPlus (PClass [(CHR ''0'', CHR ''9'')])]),
           PAct (PushText NewFloatLiteral)]"

definition Function :: pexpr where
  "Function = PSeq [PCap ident, PAct (PushText FuncName)]"

definition TRUE :: pexpr where
  "TRUE = PSeq [PCap (PILit ''true''), PAct (Push (NewBoolLiteral True))]"

definition FALSE :: pexpr where
  "FALSE = PSeq [PCap (PILit ''false''), PAct (Push (NewBoolLiteral False))]"

definition BooleanLiteral :: pexpr where
  "BooleanLiteral = PAlt [TRUE, FALSE]"

definition Wildcard_rule :: pexpr where
  "Wildcard_rule = PSeq [PCap (PLit ''*''), PAct (Push NewWildcard)]"

definition StringLiteral_rule :: pexpr where
  "StringLiteral_rule =
     PSeq [PCap (PSeq [PClass [(CHR 0x27, CHR 0x27)],
                       PStar (PAlt [PILit [CHR 0x27, CHR 0x27],
                                    PSeq [PNot (PILit [CHR 0x27]), PDot]]),
                       PClass [(CHR 0x27, CHR 0x27)]]),
           PAct (PushText NewStringLiteral)]"

definition ISTREAM :: pexpr where
  "ISTREAM = PSeq [PCap (PILit ''ISTREAM''), PAct (Push (EmitterTok Istream))]"

definition DSTREAM :: pexpr where
  "DSTREAM = PSeq [PCap (PILit ''DSTREAM''), PAct (Push (EmitterTok Dstream))]"

definition RSTREAM :: pexpr where
  "RSTREAM = PSeq [PCap (PILit ''RSTREAM''), PAct (Push (EmitterTok Rstream))]"

definition Emitter_rule :: pexpr where
  "Emitter_rule = PAlt [ISTREAM, DSTREAM, RSTREAM]"

definition TUPLES :: pexpr where
  "TUPLES = PSeq [PCap (PILit ''TUPLES''), PAct (Push (RangeUnitTok Tuples))]"

definition SECONDS :: pexpr where
  "SECONDS = PSeq [PCap (PILit ''SECONDS''), PAct (Push (RangeUnitTok Seconds))]"

definition RangeUnit_rule :: pexpr where
  "RangeUnit_rule = PAlt [TUPLES, SECONDS]"

definition SourceSinkName_rule :: pexpr where
  "SourceSinkName_rule = PSeq [PCap ident, PAct (PushText SourceSinkName)]"

definition SourceSinkType_rule :: pexpr where
  "SourceSinkType_rule = PSeq [PCap ident, PAct (PushText SourceSinkType)]"

definition SourceSinkParamKey_rule :: pexpr where
  "SourceSinkParamKey_rule = PSeq [PCap ident, PAct (PushText SourceSinkParamKey)]"

definition SourceSinkParamVal_rule :: pexpr where
  "SourceSinkParamVal_rule =
     PSeq [PCap (PPlus (PAlt [PIClass [(CHR ''a'', CHR ''z'')],
                              PClass [(CHR ''0'', CHR ''9'')],
                              PLit ''_''])),
           PAct (PushText SourceSinkParamVal)]"

definition Or_rule :: pexpr where
  "Or_rule = PSeq [PCap (PILit ''OR''), PAct (Push (Op Or))]"

definition And_rule :: pexpr where
  "And_rule = PSeq [PCap (PILit ''AND''), PAct (Push (Op And))]"

definition Equal_rule :: pexpr where
  "Equal_rule = PSeq [PCap (PILit ''=''), PAct (Push (Op Equal))]"

definition Less_rule :: pexpr where
  "Less_rule = PSeq [PCap (PILit ''<''), PAct (Push (Op Less))]"

definition LessOrEqual_rule :: pexpr where
  "LessOrEqual_rule = PSeq [PCap (PILit ''<=''), PAct (Push (Op LessOrEqual))]"

definition Greater_rule :: pexpr where
  "Greater_rule = PSeq [PCap (PILit ''>''), PAct (Push (Op Greater))]"

definition GreaterOrEqual_rule :: pexpr where
  "GreaterOrEqual_rule = PSeq [PCap (PILit ''>=''), PAct (Push (Op GreaterOrEqual))]"

definition NotEqual_rule :: pexpr where
  "NotEqual_rule =
     PSeq [PCap (PAlt [PILit ''!='', PILit ''<>'']), PAct (Push (Op NotEqual))]"

definition Plus_rule :: pexpr where
  "Plus_rule = PSeq [PCap (PILit ''+''), PAct (Push (Op Plus))]"

definition Minus_rule :: pexpr where
  "Minus_rule = PSeq [PCap (PILit ''-''), PAct (Push (Op Minus))]"

definition Multiply_rule :: pexpr where
  "Multiply_rule = PSeq [PCap (PILit ''*''), PAct (Push (Op Multiply))]"

definition Divide_rule :: pexpr where
  "Divide_rule = PSeq [PCap (PILit ''/''), PAct (Push (Op Divide))]"

definition Modulo_rule :: pexpr where
  "Modulo_rule = PSeq [PCap (PILit ''%''), PAct (Push (Op Modulo))]"

subsection \<open>Nested expressions\<close>

definition Expression :: pexpr where
  "Expression = PCallExpression"

definition FuncParams :: pexpr where
  "FuncParams =
     PSeq [PCap (PSeq [Expression, sp, PStar (PSeq [PLit '','', sp, Expression])]),
           PAct (Span AssembleExpressions)]"

definition FuncApp :: pexpr where
  "FuncApp =
     PSeq [Function, sp, PLit ''('', sp, FuncParams, sp, PLit '')'',
           PAct (NoSpan AssembleFuncApp)]"

definition Literal_rule :: pexpr where
  "Literal_rule = PAlt [FloatLiteral_rule, NumericLiteral_rule, StringLiteral_rule]"

definition ComparisonOp :: pexpr where
  "ComparisonOp =
     PAlt [Equal_rule, NotEqual_rule, LessOrEqual_rule, Less_rule,
           GreaterOrEqual_rule, Greater_rule, NotEqual_rule]"

definition PlusMinusOp :: pexpr where
  "PlusMinusOp = PAlt [Plus_rule, Minus_rule]"

definition MultDivOp :: pexpr where
  "MultDivOp = PAlt [Multiply_rule, Divide_rule, Modulo_rule]"

definition baseExpr :: pexpr where
  "baseExpr =
     PAlt [PSeq [PLit ''('', sp, Expression, sp, PLit '')''],
           BooleanLiteral,
           FuncApp,
           ColumnName_rule,
           Wildcard_rule,
           Literal_rule]"

definition productExpr :: pexpr where
  "productExpr =
     PSeq [PCap (PSeq [baseExpr, sp, POpt (PSeq [MultDivOp, sp, baseExpr])]),
           PAct (Span AssembleBinaryOperation)]"

definition termExpr :: pexpr where
  "termExpr =
     PSeq [PCap (PSeq [productExpr, sp, POpt (PSeq [PlusMinusOp, sp, productExpr])]),
           PAct (Span AssembleBinaryOperation)]"

definition comparisonExpr :: pexpr where
  "comparisonExpr =
     PSeq [PCap (PSeq [termExpr, sp, POpt (PSeq [ComparisonOp, sp, termExpr])]),
           PAct (Span AssembleBinaryOperation)]"

definition andExpr :: pexpr where
  "andExpr =
     PSeq [PCap (PSeq [comparisonExpr, sp, POpt (PSeq [And_rule, sp, comparisonExpr])]),
           PAct (Span AssembleBinaryOperation)]"

definition orExpr :: pexpr where
  "orExpr =
     PSeq [PCap (PSeq [andExpr, sp, POpt (PSeq [Or_rule, sp, andExpr])]),
           PAct (Span AssembleBinaryOperation)]"

subsection \<open>Statement components\<close>

definition Projection :: pexpr where
  "Projection = Expression"

definition Projections :: pexpr where
  "Projections =
     PSeq [PCap (PSeq [Projection, sp, PStar (PSeq [PLit '','', sp, Projection])]),
           PAct (Span AssembleProjections)]"

definition EmitProjections :: pexpr where
  "EmitProjections =
     PSeq [Emitter_rule, sp, PLit ''('', Projections, PLit '')'',
           PAct (NoSpan AssembleEmitProjections)]"

definition Relations :: pexpr where
  "Relations = PSeq [Relation_rule, sp, PStar (PSeq [PLit '','', sp, Relation_rule])]"

definition Range :: pexpr where
  "Range = PSeq [NumericLiteral_rule, sp, RangeUnit_rule, PAct (NoSpan AssembleRange)]"

definition WindowedFrom :: pexpr where
  "WindowedFrom =
     PSeq [PCap (POpt (PSeq [PILit ''FROM'', sp, Relations, sp,
                             PLit ''['', sp, PILit ''RANGE'', sp, Range, sp, PLit '']''])),
           PAct (Span AssembleWindowedFrom)]"

definition From :: pexpr where
  "From = PSeq [PCap (POpt (PSeq [PILit ''FROM'', sp, Relations])),
                PAct (Span AssembleFrom)]"

definition Filter :: pexpr where
  "Filter = PSeq [PCap (POpt (PSeq [PILit ''WHERE'', sp, Expression])),
                  PAct (Span AssembleFilter)]"

definition GroupList :: pexpr where
  "GroupList = PSeq [Expression, sp, PStar (PSeq [PLit '','', sp, Expression])]"

definition Grouping :: pexpr where
  "Grouping = PSeq [PCap (POpt (PSeq [PILit ''GROUP'', sp, PILit ''BY'', sp, GroupList])),
                    PAct (Span AssembleGrouping)]"

definition Having :: pexpr where
  "Having = PSeq [PCap (POpt (PSeq [PILit ''HAVING'', sp, Expression])),
                  PAct (Span AssembleHaving)]"

definition SourceSinkParam :: pexpr where
  "SourceSinkParam =
     PSeq [SourceSinkParamKey_rule, PLit ''='', SourceSinkParamVal_rule,
           PAct (NoSpan AssembleSourceSinkParam)]"

definition SourceSinkSpecs :: pexpr where
  "SourceSinkSpecs =
     PSeq [PCap (POpt (PSeq [PILit ''WITH'', sp, SourceSinkParam, sp,
                             PStar (PSeq [PLit '','', sp, SourceSinkParam])])),
           PAct (Span AssembleSourceSinkSpecs)]"

subsection \<open>Main statements\<close>

definition SelectStmt_rule :: pexpr where
  "SelectStmt_rule =
     PSeq [PILit ''SELECT'', sp, Projections, sp, From, sp, Filter, sp, Grouping, sp,
           Having, sp, PAct (NoSpan AssembleSelect)]"

definition CreateStreamAsSelectStmt_rule :: pexpr where
  "CreateStreamAsSelectStmt_rule =
     PSeq [PILit ''CREATE'', sp, PILit ''STREAM'', sp, Relation_rule, sp,
           PILit ''AS'', sp, PILit ''SELECT'', sp, EmitProjections, sp, WindowedFrom, sp,
           Filter, sp, Grouping, sp, Having, sp,
           PAct (NoSpan AssembleCreateStreamAsSelect)]"

definition CreateSourceStmt_rule :: pexpr where
  "CreateSourceStmt_rule =
     PSeq [PILit ''CREATE'', sp, PILit ''SOURCE'', sp, SourceSinkName_rule, sp,
           PILit ''TYPE'', sp, SourceSinkType_rule, sp, SourceSinkSpecs,
           PAct (NoSpan AssembleCreateSource)]"

definition CreateSinkStmt_rule :: pexpr where
  "CreateSinkStmt_rule =
     PSeq [PILit ''CREATE'', sp, PILit ''SINK'', sp, SourceSinkName_rule, sp,
           PILit ''TYPE'', sp, SourceSinkType_rule, sp, SourceSinkSpecs,
           PAct (NoSpan AssembleCreateSink)]"

definition CreateStreamFromSourceStmt_rule :: pexpr where
  "CreateStreamFromSourceStmt_rule =
     PSeq [PILit ''CREATE'', sp, PILit ''STREAM'', sp, Relation_rule, sp,
           PILit ''FROM'', sp, PILit ''SOURCE'', sp, SourceSinkName_rule,
           PAct (NoSpan AssembleCreateStreamFromSource)]"

definition CreateStreamFromSourceExtStmt_rule :: pexpr where
  "CreateStreamFromSourceExtStmt_rule =
     PSeq [PILit ''CREATE'', sp, PILit ''STREAM'', sp, Relation_rule, sp,
           PILit ''FROM'', sp, SourceSinkType_rule, sp, PILit ''SOURCE'', sp,
           SourceSinkSpecs,
           PAct (NoSpan AssembleCreateStreamFromSourceExt)]"

definition InsertIntoSelectStmt_rule :: pexpr where
  "InsertIntoSelectStmt_rule =
     PSeq [PILit ''INSERT'', sp, PILit ''INTO'', sp, SourceSinkName_rule, sp,
           SelectStmt_rule,
           PAct (NoSpan AssembleInsertIntoSelect)]"

definition StatementAlternatives :: pexpr where
  "StatementAlternatives =
     PAlt [SelectStmt_rule, CreateStreamAsSelectStmt_rule, CreateSourceStmt_rule,
           CreateStreamFromSourceStmt_rule, CreateStreamFromSourceExtStmt_rule,
           CreateSinkStmt_rule, InsertIntoSelectStmt_rule]"

definition Statement :: pexpr where
  "Statement = PSeq [StatementAlternatives, PNot PDot]"

section \<open>Matching\<close>

text \<open>
  The matcher of the generated parser: recursive descent with backtracking, ordered
  choice and greedy repetition. The fuel bounds the depth of the descent, so that the
  matcher is a total function; \<open>None\<close> means that the fuel ran out. On a failure the
  position and the recorded captures and actions are those before the attempt.
\<close>

fun pmatch :: "nat \<Rightarrow> pexpr \<Rightarrow> string \<Rightarrow> nat \<Rightarrow> mresult option" where
  "pmatch 0 e inp p = None"
| "pmatch (Suc n) (PLit w) inp p =
     Some (case match_lit (=) w inp of
             None \<Rightarrow> Fail
           | Some r \<Rightarrow> Match r (p + length w) [])"
| "pmatch (Suc n) (PILit w) inp p =
     Some (case match_lit ci_eq w inp of
             None \<Rightarrow> Fail
           | Some r \<Rightarrow> Match r (p + length w) [])"
| "pmatch (Suc n) (PClass rs) inp p =
     Some (case inp of
             [] \<Rightarrow> Fail
           | c # r \<Rightarrow> if list_ex (\<lambda>rg. in_range rg c) rs then Match r (Suc p) [] else Fail)"
| "pmatch (Suc n) (PIClass rs) inp p =
     Some (case inp of
             [] \<Rightarrow> Fail
           | c # r \<Rightarrow> if list_ex (\<lambda>rg. in_range_ci rg c) rs then Match r (Suc p) [] else Fail)"
| "pmatch (Suc n) PDot inp p =
     Some (case inp of [] \<Rightarrow> Fail | c # r \<Rightarrow> Match r (Suc p) [])"
| "pmatch (Suc n) (PSeq []) inp p = Some (Match inp p [])"
| "pmatch (Suc n) (PSeq (e # es)) inp p =
     (case pmatch n e inp p of
        None \<Rightarrow> None
      | Some Fail \<Rightarrow> Some Fail
      | Some (Match r q ev) \<Rightarrow>
          (case pmatch n (PSeq es) r q of
             None \<Rightarrow> None
           | Some Fail \<Rightarrow> Some Fail
           | Some (Match r' q' ev') \<Rightarrow> Some (Match r' q' (ev @ ev'))))"
| "pmatch (Suc n) (PAlt []) inp p = Some Fail"
| "pmatch (Suc n) (PAlt (e # es)) inp p =
     (case pmatch n e inp p of
        None \<Rightarrow> None
      | Some Fail \<Rightarrow> pmatch n (PAlt es) inp p
      | Some (Match r q ev) \<Rightarrow> Some (Match r q ev))"
| "pmatch (Suc n) (PStar e) inp p =
     (case pmatch n e inp p of
        None \<Rightarrow> None
      | Some Fail \<Rightarrow> Some (Match inp p [])
      | Some (Match r q ev) \<Rightarrow>
          (case pmatch n (PStar e) r q of
             None \<Rightarrow> None
           | Some Fail \<Rightarrow> Some Fail
           | Some (Match r' q' ev') \<Rightarrow> Some (Match r' q' (ev @ ev'))))"
| "pmatch (Suc n) (PPlus e) inp p = pmatch n (PSeq [e, PStar e]) inp p"
| "pmatch (Suc n) (POpt e) inp p =
     (case pmatch n e inp p of
        None \<Rightarrow> None
      | Some Fail \<Rightarrow> Some (Match inp p [])
      | Some (Match r q ev) \<Rightarrow> Some (Match r q ev))"
| "pmatch (Suc n) (PNot e) inp p =
     (case pmatch n e inp p of
        None \<Rightarrow> None
      | Some Fail \<Rightarrow> Some (Match inp p [])
      | Some (Match r q ev) \<Rightarrow> Some Fail)"
| "pmatch (Suc n) (PCap e) inp p =
     (case pmatch n e inp p of
        None \<Rightarrow> None
      | Some Fail \<Rightarrow> Some Fail
      | Some (Match r q ev) \<Rightarrow> Some (Match r q (ev @ [ECapture p q])))"
| "pmatch (Suc n) (PAct a) inp p = Some (Match inp p [EAction a])"
| "pmatch (Suc n) PCallExpression inp p = pmatch n orExpr inp p"

section \<open>Running the actions\<close>

text \<open>
  After a successful match the generated parser walks the recorded captures and actions
  in order (\<^verbatim>\<open>Execute\<close>): a capture sets \<open>begin\<close> and \<open>end\<close>, an action runs on the
  parse stack. A panic of an action aborts the run.
\<close>

fun Execute :: "string \<Rightarrow> event list \<Rightarrow> nat \<Rightarrow> nat \<Rightarrow> parseStack \<Rightarrow> error + parseStack" where
  "Execute buffer [] b e p = Inr p"
| "Execute buffer (ECapture b' e' # evs) b e p = Execute buffer evs b' e' p"
| "Execute buffer (EAction a # evs) b e p =
     (case a buffer b e p of
        Inl err \<Rightarrow> Inl err
      | Inr p' \<Rightarrow> Execute buffer evs b e p')"

text \<open>
  Modelled from the spec: the entry point \<open>parse(query text) \<rightarrow> (AST, error)\<close> (the Go
  file that wraps the generated parser is not among the sources). A text that the rule
  \<^verbatim>\<open>Statement\<close> does not match is a syntax error and no action runs; otherwise the
  actions run on an empty stack, and the one fragment that survives is the AST.
\<close>

definition ParseStmt :: "nat \<Rightarrow> string \<Rightarrow> (error + component) option" where
  "ParseStmt fuel s =
     (case pmatch fuel Statement s 0 of
        None \<Rightarrow> None
      | Some Fail \<Rightarrow> Some (Inl SyntaxError)
      | Some (Match r q evs) \<Rightarrow>
          Some (case Execute s evs 0 0 [] of
                  Inl err \<Rightarrow> Inl err
                | Inr [f] \<Rightarrow> Inr (comp f)
                | Inr _ \<Rightarrow> Inl InvariantViolation))"


section \<open>Vocabulary of the properties\<close>

text \<open>
  A match attempt returns a result when some amount of fuel suffices; more fuel never
  changes it (lemma \<open>pmatch_mono\<close> below), so \<open>matches\<close> is the matcher without the fuel.
\<close>

definition matches :: "pexpr \<Rightarrow> string \<Rightarrow> nat \<Rightarrow> mresult \<Rightarrow> bool" where
  "matches e inp p r \<longleftrightarrow> (\<exists>n. pmatch n e inp p = Some r)"

text \<open>The result of a parse, given the result of the match of \<^verbatim>\<open>Statement\<close>.\<close>

definition outcome :: "string \<Rightarrow> mresult \<Rightarrow> error + component" where
  "outcome s R =
     (case R of
        Fail \<Rightarrow> Inl SyntaxError
      | Match r q evs \<Rightarrow>
          (case Execute s evs 0 0 [] of
             Inl err \<Rightarrow> Inl err
           | Inr [f] \<Rightarrow> Inr (comp f)
           | Inr _ \<Rightarrow> Inl InvariantViolation))"

definition parses :: "string \<Rightarrow> error + component \<Rightarrow> bool" where
  "parses s res \<longleftrightarrow> (\<exists>n. ParseStmt n s = Some res)"

text \<open>The input that a successful match leaves unread.\<close>

fun remaining :: "mresult option \<Rightarrow> string option" where
  "remaining (Some (Match r q evs)) = Some r"
| "remaining _ = None"

text \<open>
  Character sets. \<open>spec_ident\<close> is the identifier form in the spec's words,
  \<open>[a-z][a-z0-9_]*\<close>; \<open>code_ident\<close> is the form that the rule \<^verbatim>\<open>ident\<close> of the
  grammar accepts, whose letter class \<open>[[a-z]]\<close> takes both cases.
\<close>

definition is_lower :: "char \<Rightarrow> bool" where
  "is_lower c \<longleftrightarrow> CHR ''a'' \<le> c \<and> c \<le> CHR ''z''"

definition is_upper :: "char \<Rightarrow> bool" where
  "is_upper c \<longleftrightarrow> CHR ''A'' \<le> c \<and> c \<le> CHR ''Z''"

definition is_digit :: "char \<Rightarrow> bool" where
  "is_digit c \<longleftrightarrow> CHR ''0'' \<le> c \<and> c \<le> CHR ''9''"

definition is_ident_char :: "char \<Rightarrow> bool" where
  "is_ident_char c \<longleftrightarrow> is_lower c \<or> is_upper c \<or> is_digit c \<or> c = CHR ''_''"

definition is_space :: "char \<Rightarrow> bool" where
  "is_space c \<longleftrightarrow> c = CHR '' '' \<or> c = CHR 0x09 \<or> c = CHR 0x0A"

definition spec_ident :: "string \<Rightarrow> bool" where
  "spec_ident w \<longleftrightarrow>
     (case w of [] \<Rightarrow> False
      | c # cs \<Rightarrow> is_lower c \<and> list_all (\<lambda>x. is_lower x \<or> is_digit x \<or> x = CHR ''_'') cs)"

definition code_ident :: "string \<Rightarrow> bool" where
  "code_ident w \<longleftrightarrow>
     (case w of [] \<Rightarrow> False
      | c # cs \<Rightarrow> (is_lower c \<or> is_upper c) \<and> list_all is_ident_char cs)"

text \<open>A parsing expression that tests one character.\<close>

definition char_test :: "pexpr \<Rightarrow> (char \<Rightarrow> bool) \<Rightarrow> bool" where
  "char_test e P \<longleftrightarrow>
     (\<forall>inp p R. matches e inp p R \<longleftrightarrow>
        R = (case inp of [] \<Rightarrow> Fail | c # r \<Rightarrow> if P c then Match r (Suc p) [] else Fail))"

text \<open>
  The text of a string literal with the value \<open>v\<close>: every single quote of the value is
  written twice, between two single quotes.
\<close>

fun escape :: "string \<Rightarrow> string" where
  "escape [] = []"
| "escape (c # v) = (if c = CHR 0x27 then CHR 0x27 # CHR 0x27 # escape v else c # escape v)"

definition quote :: "string \<Rightarrow> string" where
  "quote v = CHR 0x27 # escape v @ [CHR 0x27]"

text \<open>
  One level of the expression ladder in the spec's words: one operand of the next-tighter
  level, optionally followed by one operator and one more operand of the same tightness,
  reduced by \<^verbatim>\<open>AssembleBinaryOperation\<close> over the whole span.
\<close>

definition binary_level :: "pexpr \<Rightarrow> pexpr \<Rightarrow> pexpr" where
  "binary_level operand operator =
     PSeq [PCap (PSeq [operand, sp, POpt (PSeq [operator, sp, operand])]),
           PAct (Span AssembleBinaryOperation)]"

text \<open>
  An optional clause: its rule never fails and always ends with its reduction over the
  captured span; where the keyword of the clause does not follow, the span is empty; and
  the reduction pushes the marker when no fragment lies in its span.
\<close>

definition always_runs :: "pexpr \<Rightarrow> action \<Rightarrow> bool" where
  "always_runs rule a \<longleftrightarrow>
     (\<forall>inp p R. matches rule inp p R \<longrightarrow>
        (\<exists>r q evs. R = Match r q (evs @ [ECapture p q, EAction a])))"

definition absent_gives_empty_span :: "string \<Rightarrow> pexpr \<Rightarrow> action \<Rightarrow> bool" where
  "absent_gives_empty_span keyword rule a \<longleftrightarrow>
     (\<forall>inp p. matches (PILit keyword) inp p Fail \<longrightarrow>
        matches rule inp p (Match inp p [ECapture p p, EAction a]))"

definition pushes_marker ::
  "(parseStack \<Rightarrow> nat \<Rightarrow> nat \<Rightarrow> error + parseStack) \<Rightarrow> component \<Rightarrow> bool" where
  "pushes_marker reduce marker \<longleftrightarrow>
     (\<forall>ps b e. takeWhile (within b e) ps = [] \<longrightarrow>
        reduce ps b e = Inr (PushComponent ps b e marker))"

text \<open>
  Termination of the matcher, rule by rule: \<open>returns_below k e\<close> says that the match of
  \<open>e\<close> returns (with a match or a failure) on every input shorter than \<open>k\<close>, and a
  rule is \<open>consuming\<close> when each of its matches takes at least one character.
\<close>

definition returns_below :: "nat \<Rightarrow> pexpr \<Rightarrow> bool" where
  "returns_below k e \<longleftrightarrow> (\<forall>inp p. length inp < k \<longrightarrow> (\<exists>R. matches e inp p R))"


section \<open>The struct decoder (\<^verbatim>\<open>data/decode.go\<close>)\<close>

subsection \<open>Floats and their conversions\<close>

text \<open>
  A \<^verbatim>\<open>float64\<close> is a finite value, an infinity or a NaN; a finite value is held by
  the rational number it denotes (both zeros are the number 0: Go's \<open>==\<close> and the
  conversion to an integer do not tell them apart). \<open>float_eq\<close> is Go's \<open>==\<close>, which
  a NaN never satisfies.
\<close>

datatype float64 = Finite rat | PosInf | NegInf | NaN

fun float_eq :: "float64 \<Rightarrow> float64 \<Rightarrow> bool" where
  "float_eq NaN _ = False"
| "float_eq _ NaN = False"
| "float_eq x y = (x = y)"

text \<open>
  The conversion \<^verbatim>\<open>int64(f)\<close> discards the fraction (truncation towards zero). Where
  the value does not fit, for an infinity and for a NaN, Go leaves the result to the
  implementation: it is the parameter \<open>platform\<close>.
\<close>

definition trunc :: "rat \<Rightarrow> int" where
  "trunc q = (if 0 \<le> q then \<lfloor>q\<rfloor> else \<lceil>q\<rceil>)"

definition int64_of_float64 :: "(float64 \<Rightarrow> int) \<Rightarrow> float64 \<Rightarrow> int" where
  "int64_of_float64 platform f =
     (case f of
        Finite q \<Rightarrow>
          if - (2 ^ 63) \<le> trunc q \<and> trunc q < 2 ^ 63 then trunc q else platform f
      | _ \<Rightarrow> platform f)"

text \<open>
  The conversion \<^verbatim>\<open>float64(i)\<close> rounds to the nearest value with 53 significant
  bits, ties to the even one.
\<close>

function excess_bits :: "int \<Rightarrow> nat" where
  "excess_bits a = (if a < 2 ^ 53 then 0 else Suc (excess_bits (a div 2)))"
  by pat_completeness auto
termination
  by (relation "measure nat") auto

definition round53 :: "int \<Rightarrow> int" where
  "round53 i =
     (let a = \<bar>i\<bar>;
          k = excess_bits a;
          q = a div 2 ^ k;
          r = a mod 2 ^ k;
          m = (if 2 ^ k < 2 * r \<or> (2 * r = 2 ^ k \<and> odd q) then q + 1 else q) * 2 ^ k
      in if i < 0 then - m else m)"

definition float64_of_int64 :: "int \<Rightarrow> float64" where
  "float64_of_int64 i = Finite (of_int (round53 i))"

subsection \<open>Values and destinations\<close>

text \<open>
  The values of the package \<^verbatim>\<open>data\<close>, as the decoder and its test use them
  (\<^verbatim>\<open>Int\<close> is written \<open>IntV\<close>). The conversion functions of the package are not
  among the sources: they are the fields of \<open>lib\<close>, each returning its value and an
  optional error as the Go functions do. \<open>platform_int64\<close> is the conversion of a float
  that does not fit an \<^verbatim>\<open>int64\<close>.
\<close>

datatype Value =
    Null
  | Bool bool
  | IntV int
  | Float float64
  | String string
  | Array "Value list"
  | Map "(string \<times> Value) list"

datatype TypeID = TypeNull | TypeBool | TypeInt | TypeFloat | TypeString | TypeArray | TypeMap

fun Type :: "Value \<Rightarrow> TypeID" where
  "Type Null = TypeNull"
| "Type (Bool _) = TypeBool"
| "Type (IntV _) = TypeInt"
| "Type (Float _) = TypeFloat"
| "Type (String _) = TypeString"
| "Type (Array _) = TypeArray"
| "Type (Map _) = TypeMap"

record lib =
  AsBool :: "Value \<Rightarrow> bool \<times> string option"
  ToBool :: "Value \<Rightarrow> bool \<times> string option"
  AsInt :: "Value \<Rightarrow> int \<times> string option"
  ToInt :: "Value \<Rightarrow> int \<times> string option"
  AsFloat :: "Value \<Rightarrow> float64 \<times> string option"
  ToFloat :: "Value \<Rightarrow> float64 \<times> string option"
  AsString :: "Value \<Rightarrow> string \<times> string option"
  ToString :: "Value \<Rightarrow> string \<times> string option"
  AsMap :: "Value \<Rightarrow> (string \<times> Value) list \<times> string option"
  platform_int64 :: "float64 \<Rightarrow> int"

text \<open>
  The destination of a decode is a field of a struct, seen through \<^verbatim>\<open>reflect\<close>:
  its kind and its content. \<open>DInt\<close> is a field of one of the ten integer kinds that
  \<^verbatim>\<open>decode\<close> sends to \<^verbatim>\<open>decodeInt\<close>; \<^verbatim>\<open>int\<close> and \<^verbatim>\<open>uint\<close> have 64
  bits. A struct is the list of its fields, each under the key it is looked up by (the
  first part of its tag or the snake case of its name). \<open>DOther\<close> is a kind the decoder
  does not support.
\<close>

datatype kind =
  KInt | KInt8 | KInt16 | KInt32 | KInt64 | KUint | KUint8 | KUint16 | KUint32 | KUint64

fun signed_bits :: "kind \<Rightarrow> nat option" where
  "signed_bits KInt = Some 64"
| "signed_bits KInt8 = Some 8"
| "signed_bits KInt16 = Some 16"
| "signed_bits KInt32 = Some 32"
| "signed_bits KInt64 = Some 64"
| "signed_bits _ = None"

datatype dest =
    DBool bool
  | DInt kind int
  | DFloat float64
  | DString string
  | DInterface bool
  | DMap
  | DSlice
  | DStruct "(string \<times> dest) list"
  | DOther

text \<open>A decode returns the new content of the field, returns an error, or panics.\<close>

datatype 'a result = Ok 'a | Err string | Panic

text \<open>
  \<^verbatim>\<open>reflect.Value.SetInt\<close> stores the integer converted to the type of the field,
  and panics when the kind of the field is not a signed integer kind.
\<close>

definition SetInt :: "kind \<Rightarrow> int \<Rightarrow> dest result" where
  "SetInt k x =
     (case signed_bits k of
        None \<Rightarrow> Panic
      | Some w \<Rightarrow> Ok (DInt k (signed_take_bit (w - 1) x)))"

subsection \<open>The decoder\<close>

definition decodeBool :: "lib \<Rightarrow> Value \<Rightarrow> bool \<Rightarrow> dest result" where
  "decodeBool d src weaklyTyped =
     (case (if weaklyTyped then ToBool d src else AsBool d src) of
        (b, Some err) \<Rightarrow> Err err
      | (b, None) \<Rightarrow> Ok (DBool b))"

definition decodeInt :: "lib \<Rightarrow> Value \<Rightarrow> kind \<Rightarrow> bool \<Rightarrow> dest result" where
  "decodeInt d src k weaklyTyped =
     (case (if weaklyTyped then ToInt d src
            else (case AsInt d src of
                    (i, None) \<Rightarrow> (i, None)
                  | (i, Some err) \<Rightarrow>
                      if Type src = TypeFloat
                      then (let f = fst (AsFloat d src);
                                i' = int64_of_float64 (platform_int64 d) f
                            in if float_eq f (float64_of_int64 i') then (i', None)
                               else (i', Some err))
                      else (i, Some err))) of
        (i, Some err) \<Rightarrow> Err err
      | (i, None) \<Rightarrow> SetInt k i)"

definition decodeFloat :: "lib \<Rightarrow> Value \<Rightarrow> bool \<Rightarrow> dest result" where
  "decodeFloat d src weaklyTyped =
     (case (if weaklyTyped then ToFloat d src else AsFloat d src) of
        (f, Some err) \<Rightarrow> Err err
      | (f, None) \<Rightarrow> Ok (DFloat f))"

definition decodeString :: "lib \<Rightarrow> Value \<Rightarrow> bool \<Rightarrow> dest result" where
  "decodeString d src weaklyTyped =
     (case (if weaklyTyped then ToString d src else AsString d src) of
        (s, Some err) \<Rightarrow> Err err
      | (s, None) \<Rightarrow> Ok (DString s))"

definition decodeSlice :: "Value \<Rightarrow> dest result" where
  "decodeSlice src =
     (if Type src \<noteq> TypeArray then Err ''cannot decode to an array''
      else Err ''not implemented yet'')"

fun decode :: "lib \<Rightarrow> Value \<Rightarrow> dest \<Rightarrow> bool \<Rightarrow> dest result"
  and decodeStruct :: "lib \<Rightarrow> Value \<Rightarrow> (string \<times> dest) list \<Rightarrow> dest result"
  and decodeFields ::
    "lib \<Rightarrow> (string \<times> Value) list \<Rightarrow> (string \<times> dest) list \<Rightarrow> (string \<times> dest) list result"
where
  "decode d src (DBool b) weaklyTyped = decodeBool d src weaklyTyped"
| "decode d src (DInt k v) weaklyTyped = decodeInt d src k weaklyTyped"
| "decode d src (DFloat f) weaklyTyped = decodeFloat d src weaklyTyped"
| "decode d src (DString s) weaklyTyped = decodeString d src weaklyTyped"
| "decode d src (DInterface is_empty) weaklyTyped =
     (if \<not> is_empty then Err ''only empty interface{} is supported''
      else Err ''not implemented yet'')"
| "decode d src DMap weaklyTyped = Err ''not implemented yet''"
| "decode d src DSlice weaklyTyped = decodeSlice src"
| "decode d src (DStruct fs) weaklyTyped = decodeStruct d src fs"
| "decode d src DOther weaklyTyped = Err ''decoder doesn't support the type''"
| "decodeStruct d src fs =
     (case AsMap d src of
        (m, Some err) \<Rightarrow> Err ''struct can only be decoded from a map''
      | (m, None) \<Rightarrow>
          (case decodeFields d m fs of
             Ok fs' \<Rightarrow> Ok (DStruct fs')
           | Err e \<Rightarrow> Err e
           | Panic \<Rightarrow> Panic))"
| "decodeFields d m [] = Ok []"
| "decodeFields d m ((name, dst) # fs) =
     (case map_of m name of
        None \<Rightarrow>
          (case decodeFields d m fs of
             Ok fs' \<Rightarrow> Ok ((name, dst) # fs')
           | Err e \<Rightarrow> Err e
           | Panic \<Rightarrow> Panic)
      | Some src \<Rightarrow>
          (case decode d src dst False of
             Err e \<Rightarrow> Err e
           | Panic \<Rightarrow> Panic
           | Ok dst' \<Rightarrow>
               (case decodeFields d m fs of
                  Ok fs' \<Rightarrow> Ok ((name, dst') # fs')
                | Err e \<Rightarrow> Err e
                | Panic \<Rightarrow> Panic)))"



section \<open>Properties of the parse stack\<close>

lemma collectElements_eq:
  "collectElements ps b e acc =
     (rev (map comp (takeWhile (within b e) ps)) @ acc, dropWhile (within b e) ps)"
  by (induction ps arbitrary: acc) auto

lemma AssembleBinaryOperation_one:
  "takeWhile (within b e) ps = [f] \<Longrightarrow>
   AssembleBinaryOperation ps b e
     = Inr (PushComponent (dropWhile (within b e) ps) b e (comp f))"
  by (simp add: AssembleBinaryOperation_def collectElements_eq)

lemma AssembleBinaryOperation_noop:
  assumes a: "takeWhile (within b e) ps = [f]" and b: "el_begin f = b" and e: "el_end f = e"
  shows "AssembleBinaryOperation ps b e = Inr ps"
proof -
  have "ps = takeWhile (within b e) ps @ dropWhile (within b e) ps" by simp
  then have "ps = f # dropWhile (within b e) ps" using a by simp
  moreover have "f = \<lparr>el_begin = b, el_end = e, comp = comp f\<rparr>" using b e by simp
  ultimately show ?thesis
    using AssembleBinaryOperation_one[OF a] by (simp add: PushComponent_def)
qed

lemma AssembleBinaryOperation_three:
  "takeWhile (within b e) ps = [r, m, l] \<Longrightarrow> comp l = Expr x \<Longrightarrow> comp m = Op bop \<Longrightarrow>
   comp r = Expr y \<Longrightarrow>
   AssembleBinaryOperation ps b e
     = Inr (PushComponent (dropWhile (within b e) ps) b e (Expr (BinaryOpAST bop x y)))"
  by (simp add: AssembleBinaryOperation_def collectElements_eq)

lemma AssembleBinaryOperation_count:
  "length (takeWhile (within b e) ps) \<noteq> 1 \<Longrightarrow> length (takeWhile (within b e) ps) \<noteq> 3 \<Longrightarrow>
   AssembleBinaryOperation ps b e = Inl InvariantViolation"
  unfolding AssembleBinaryOperation_def collectElements_eq
  by (cases "takeWhile (within b e) ps" rule: rev_cases) (auto split: list.splits)

lemma AssembleBinaryOperation_shape:
  "takeWhile (within b e) ps = [r, m, l] \<Longrightarrow>
   \<not> (is_operand (comp l) \<and> is_operator (comp m) \<and> is_operand (comp r)) \<Longrightarrow>
   AssembleBinaryOperation ps b e = Inl InvariantViolation"
  unfolding AssembleBinaryOperation_def collectElements_eq
  apply (cases "comp l"; simp)
  apply (cases "comp m"; simp)
  apply (cases "comp r"; simp)
  done

text \<open>
  Claim C1. The fragments of the span \<open>[b, e)\<close> are the longest run of fragments at the
  top of the stack that lie within it (top first), and \<open>rest\<close> is the stack below them.
  \<^verbatim>\<open>AssembleBinaryOperation\<close> behaves by their count: with exactly one fragment it
  leaves the payload as it is (and the whole stack as it is when the fragment already
  has the span); with exactly three fragments operand, operator, operand it replaces
  them by one binary node with the operator and the operands in their left-to-right
  order, under the span \<open>[b, e)\<close>; with any other count, or with three fragments of
  another shape, it is an invariant violation.
\<close>

theorem AssembleBinaryOperation_by_count:
  assumes "frags = takeWhile (within b e) ps" and "rest = dropWhile (within b e) ps"
  shows "(\<forall>f. frags = [f] \<longrightarrow>
            AssembleBinaryOperation ps b e = Inr (PushComponent rest b e (comp f))
            \<and> (el_begin f = b \<and> el_end f = e \<longrightarrow> AssembleBinaryOperation ps b e = Inr ps))
       \<and> (\<forall>l m r x bop y.
            frags = [r, m, l] \<and> comp l = Expr x \<and> comp m = Op bop \<and> comp r = Expr y \<longrightarrow>
            AssembleBinaryOperation ps b e
              = Inr (PushComponent rest b e (Expr (BinaryOpAST bop x y))))
       \<and> (length frags \<noteq> 1 \<and> length frags \<noteq> 3 \<longrightarrow>
            AssembleBinaryOperation ps b e = Inl InvariantViolation)
       \<and> (\<forall>l m r.
            frags = [r, m, l]
            \<and> \<not> (is_operand (comp l) \<and> is_operator (comp m) \<and> is_operand (comp r)) \<longrightarrow>
            AssembleBinaryOperation ps b e = Inl InvariantViolation)"
proof (intro conjI allI impI)
  fix f assume "frags = [f]"
  then show "AssembleBinaryOperation ps b e = Inr (PushComponent rest b e (comp f))"
    using assms by (simp add: AssembleBinaryOperation_one)
next
  fix f assume "frags = [f]" and "el_begin f = b \<and> el_end f = e"
  then show "AssembleBinaryOperation ps b e = Inr ps"
    using assms by (simp add: AssembleBinaryOperation_noop)
next
  fix l m r x bop y
  assume "frags = [r, m, l] \<and> comp l = Expr x \<and> comp m = Op bop \<and> comp r = Expr y"
  then show "AssembleBinaryOperation ps b e
               = Inr (PushComponent rest b e (Expr (BinaryOpAST bop x y)))"
    using assms by (simp add: AssembleBinaryOperation_three)
next
  assume "length frags \<noteq> 1 \<and> length frags \<noteq> 3"
  then show "AssembleBinaryOperation ps b e = Inl InvariantViolation"
    using assms by (simp add: AssembleBinaryOperation_count)
next
  fix l m r
  assume "frags = [r, m, l]
            \<and> \<not> (is_operand (comp l) \<and> is_operator (comp m) \<and> is_operand (comp r))"
  then show "AssembleBinaryOperation ps b e = Inl InvariantViolation"
    using assms AssembleBinaryOperation_shape[of b e ps r m l] by simp
qed

text \<open>
  The stacks of the repository's test of \<^verbatim>\<open>AssembleBinaryOperation\<close>: one item, three
  correct items, no items, two items, three wrong items, four items.
\<close>

theorem AssembleBinaryOperation_by_count_witness:
  "AssembleBinaryOperation
      [\<lparr>el_begin = 2, el_end = 3, comp = Expr (ColumnName ''a'')\<rparr>,
       \<lparr>el_begin = 0, el_end = 2, comp = Raw ''PRE''\<rparr>] 2 3
     = Inr [\<lparr>el_begin = 2, el_end = 3, comp = Expr (ColumnName ''a'')\<rparr>,
            \<lparr>el_begin = 0, el_end = 2, comp = Raw ''PRE''\<rparr>]
   \<and> AssembleBinaryOperation
      [\<lparr>el_begin = 4, el_end = 5, comp = Expr (ColumnName ''b'')\<rparr>,
       \<lparr>el_begin = 3, el_end = 4, comp = Op Plus\<rparr>,
       \<lparr>el_begin = 2, el_end = 3, comp = Expr (ColumnName ''a'')\<rparr>,
       \<lparr>el_begin = 0, el_end = 2, comp = Raw ''PRE''\<rparr>] 2 5
     = Inr [\<lparr>el_begin = 2, el_end = 5,
              comp = Expr (BinaryOpAST Plus (ColumnName ''a'') (ColumnName ''b''))\<rparr>,
            \<lparr>el_begin = 0, el_end = 2, comp = Raw ''PRE''\<rparr>]
   \<and> AssembleBinaryOperation
      [\<lparr>el_begin = 2, el_end = 3, comp = Expr (ColumnName ''a'')\<rparr>] 4 5
     = Inl InvariantViolation
   \<and> AssembleBinaryOperation
      [\<lparr>el_begin = 6, el_end = 7, comp = Expr (ColumnName ''c'')\<rparr>,
       \<lparr>el_begin = 2, el_end = 3, comp = Expr (ColumnName ''a'')\<rparr>] 2 7
     = Inl InvariantViolation
   \<and> AssembleBinaryOperation
      [\<lparr>el_begin = 6, el_end = 7, comp = Expr (ColumnName ''c'')\<rparr>,
       \<lparr>el_begin = 4, el_end = 5, comp = Expr (ColumnName ''b'')\<rparr>,
       \<lparr>el_begin = 2, el_end = 3, comp = Expr (ColumnName ''a'')\<rparr>] 2 7
     = Inl InvariantViolation
   \<and> AssembleBinaryOperation
      [\<lparr>el_begin = 7, el_end = 8, comp = Expr (ColumnName ''c'')\<rparr>,
       \<lparr>el_begin = 5, el_end = 6, comp = Op Plus\<rparr>,
       \<lparr>el_begin = 4, el_end = 5, comp = Expr (ColumnName ''b'')\<rparr>,
       \<lparr>el_begin = 2, el_end = 3, comp = Expr (ColumnName ''a'')\<rparr>] 2 8
     = Inl InvariantViolation"
proof -
  let ?pre = "\<lparr>el_begin = 0, el_end = 2, comp = Raw ''PRE''\<rparr>"
  let ?a = "\<lparr>el_begin = 2, el_end = 3, comp = Expr (ColumnName ''a'')\<rparr>"
  let ?b = "\<lparr>el_begin = 4, el_end = 5, comp = Expr (ColumnName ''b'')\<rparr>"
  let ?plus = "\<lparr>el_begin = 3, el_end = 4, comp = Op Plus\<rparr>"
  let ?c6 = "\<lparr>el_begin = 6, el_end = 7, comp = Expr (ColumnName ''c'')\<rparr>"
  let ?c7 = "\<lparr>el_begin = 7, el_end = 8, comp = Expr (ColumnName ''c'')\<rparr>"
  let ?plus5 = "\<lparr>el_begin = 5, el_end = 6, comp = Op Plus\<rparr>"
  have one: "[?a] = takeWhile (within 2 3) [?a, ?pre]"
    "[?pre] = dropWhile (within 2 3) [?a, ?pre]"
    by (simp_all add: within_def)
  have three: "[?b, ?plus, ?a] = takeWhile (within 2 5) [?b, ?plus, ?a, ?pre]"
    "[?pre] = dropWhile (within 2 5) [?b, ?plus, ?a, ?pre]"
    by (simp_all add: within_def)
  have none: "[] = takeWhile (within 4 5) [?a]" "[?a] = dropWhile (within 4 5) [?a]"
    by (simp_all add: within_def)
  have two: "[?c6, ?a] = takeWhile (within 2 7) [?c6, ?a]"
    "[] = dropWhile (within 2 7) [?c6, ?a]"
    by (simp_all add: within_def)
  have wrong: "[?c6, ?b, ?a] = takeWhile (within 2 7) [?c6, ?b, ?a]"
    "[] = dropWhile (within 2 7) [?c6, ?b, ?a]"
    by (simp_all add: within_def)
  have four: "[?c7, ?plus5, ?b, ?a] = takeWhile (within 2 8) [?c7, ?plus5, ?b, ?a]"
    "[] = dropWhile (within 2 8) [?c7, ?plus5, ?b, ?a]"
    by (simp_all add: within_def)
  show ?thesis
    using AssembleBinaryOperation_by_count[OF one]
      AssembleBinaryOperation_by_count[OF three]
      AssembleBinaryOperation_by_count[OF none]
      AssembleBinaryOperation_by_count[OF two]
      AssembleBinaryOperation_by_count[OF wrong]
      AssembleBinaryOperation_by_count[OF four]
    by (simp add: PushComponent_def)
qed

section \<open>Properties of the matcher\<close>

lemma pmatch_mono:
  "pmatch n e inp p = Some r \<Longrightarrow> n \<le> m \<Longrightarrow> pmatch m e inp p = Some r"
proof (induction n e inp p arbitrary: m r rule: pmatch.induct)
  case (1 e inp p)
  then show ?case by simp
next
  case (8 n e es inp p)
  from "8.prems" obtain m' where m: "m = Suc m'" "n \<le> m'" by (cases m) auto
  show ?case
  proof (cases "pmatch n e inp p")
    case None
    then show ?thesis using "8.prems" by simp
  next
    case (Some a)
    note a = Some
    show ?thesis
    proof (cases a)
      case Fail
      then show ?thesis using "8.prems" a m "8.IH"(1)[OF a m(2)] by simp
    next
      case (Match r1 q1 ev1)
      have e1: "pmatch m' e inp p = Some (Match r1 q1 ev1)"
        using "8.IH"(1)[OF a m(2)] Match by simp
      show ?thesis
      proof (cases "pmatch n (PSeq es) r1 q1")
        case None
        then show ?thesis using "8.prems" a Match by simp
      next
        case (Some b)
        have "pmatch m' (PSeq es) r1 q1 = Some b"
          using "8.IH"(2)[OF a Match Some m(2)] .
        then show ?thesis using "8.prems" a Match Some e1 m by (simp split: mresult.splits)
      qed
    qed
  qed
next
  case (10 n e es inp p)
  from "10.prems" obtain m' where m: "m = Suc m'" "n \<le> m'" by (cases m) auto
  show ?case
  proof (cases "pmatch n e inp p")
    case None
    then show ?thesis using "10.prems" by simp
  next
    case (Some a)
    note a = Some
    have e1: "pmatch m' e inp p = Some a" using "10.IH"(1)[OF a m(2)] .
    show ?thesis
    proof (cases a)
      case Fail
      have "pmatch n (PAlt es) inp p = Some r" using "10.prems" a Fail by simp
      from "10.IH"(2)[OF a Fail this m(2)]
      show ?thesis using e1 Fail m by simp
    next
      case (Match r1 q1 ev1)
      then show ?thesis using "10.prems" a e1 m by auto
    qed
  qed
next
  case (11 n e inp p)
  from "11.prems" obtain m' where m: "m = Suc m'" "n \<le> m'" by (cases m) auto
  show ?case
  proof (cases "pmatch n e inp p")
    case None
    then show ?thesis using "11.prems" by simp
  next
    case (Some a)
    note a = Some
    have e1: "pmatch m' e inp p = Some a" using "11.IH"(1)[OF a m(2)] .
    show ?thesis
    proof (cases a)
      case Fail
      then show ?thesis using "11.prems" a e1 m by simp
    next
      case (Match r1 q1 ev1)
      show ?thesis
      proof (cases "pmatch n (PStar e) r1 q1")
        case None
        then show ?thesis using "11.prems" a Match by simp
      next
        case (Some b)
        have "pmatch m' (PStar e) r1 q1 = Some b"
          using "11.IH"(2)[OF a Match Some m(2)] .
        then show ?thesis using "11.prems" a Match Some e1 m by (simp split: mresult.splits)
      qed
    qed
  qed
next
  case (2 n w inp p) then show ?case by (cases m) auto
next
  case (3 n w inp p) then show ?case by (cases m) auto
next
  case (4 n rs inp p) then show ?case by (cases m) auto
next
  case (5 n rs inp p) then show ?case by (cases m) auto
next
  case (6 n inp p) then show ?case by (cases m) auto
next
  case (7 n inp p) then show ?case by (cases m) auto
next
  case (9 n inp p) then show ?case by (cases m) auto
next
  case (12 n e inp p)
  from "12.prems" obtain m' where m: "m = Suc m'" "n \<le> m'" by (cases m) auto
  from "12.prems" have "pmatch n (PSeq [e, PStar e]) inp p = Some r" by simp
  from "12.IH"[OF this m(2)] show ?case using m by simp
next
  case (13 n e inp p)
  from "13.prems" obtain m' where m: "m = Suc m'" "n \<le> m'" by (cases m) auto
  from "13.prems" obtain a where a: "pmatch n e inp p = Some a" by (auto split: option.splits)
  from "13.IH"[OF a m(2)] show ?case using "13.prems" a m by simp
next
  case (14 n e inp p)
  from "14.prems" obtain m' where m: "m = Suc m'" "n \<le> m'" by (cases m) auto
  from "14.prems" obtain a where a: "pmatch n e inp p = Some a" by (auto split: option.splits)
  from "14.IH"[OF a m(2)] show ?case using "14.prems" a m by simp
next
  case (15 n e inp p)
  from "15.prems" obtain m' where m: "m = Suc m'" "n \<le> m'" by (cases m) auto
  from "15.prems" obtain a where a: "pmatch n e inp p = Some a" by (auto split: option.splits)
  from "15.IH"[OF a m(2)] show ?case using "15.prems" a m by simp
next
  case (16 n a inp p) then show ?case by (cases m) auto
next
  case (17 n inp p)
  from "17.prems" obtain m' where m: "m = Suc m'" "n \<le> m'" by (cases m) auto
  from "17.prems" have "pmatch n orExpr inp p = Some r" by simp
  from "17.IH"[OF this m(2)] show ?case using m by simp
qed

lemma matchesI: "pmatch n e inp p = Some r \<Longrightarrow> matches e inp p r"
  by (auto simp: matches_def)

lemma matches_det: "matches e inp p r1 \<Longrightarrow> matches e inp p r2 \<Longrightarrow> r1 = r2"
proof -
  assume "matches e inp p r1" "matches e inp p r2"
  then obtain n1 n2 where a: "pmatch n1 e inp p = Some r1" "pmatch n2 e inp p = Some r2"
    by (auto simp: matches_def)
  have "pmatch (max n1 n2) e inp p = Some r1" "pmatch (max n1 n2) e inp p = Some r2"
    using pmatch_mono[OF a(1), of "max n1 n2"] pmatch_mono[OF a(2), of "max n1 n2"] by simp_all
  then show ?thesis by simp
qed

lemma matches_Suc: "matches e inp p r \<longleftrightarrow> (\<exists>n. pmatch (Suc n) e inp p = Some r)"
proof
  assume "matches e inp p r"
  then obtain n where n: "pmatch n e inp p = Some r" by (auto simp: matches_def)
  then show "\<exists>n. pmatch (Suc n) e inp p = Some r" by (cases n) auto
qed (auto simp: matches_def)

lemma matches_two:
  assumes "matches e1 i1 p1 r1" and "matches e2 i2 p2 r2"
  obtains n where "pmatch n e1 i1 p1 = Some r1" and "pmatch n e2 i2 p2 = Some r2"
proof -
  from assms obtain n1 n2 where a: "pmatch n1 e1 i1 p1 = Some r1" "pmatch n2 e2 i2 p2 = Some r2"
    by (auto simp: matches_def)
  have "pmatch (max n1 n2) e1 i1 p1 = Some r1" "pmatch (max n1 n2) e2 i2 p2 = Some r2"
    using pmatch_mono[OF a(1), of "max n1 n2"] pmatch_mono[OF a(2), of "max n1 n2"] by simp_all
  then show ?thesis using that by blast
qed

lemma matches_Lit:
  "matches (PLit w) inp p r \<longleftrightarrow>
     r = (case match_lit (=) w inp of None \<Rightarrow> Fail | Some r' \<Rightarrow> Match r' (p + length w) [])"
  by (auto simp: matches_Suc)

lemma matches_ILit:
  "matches (PILit w) inp p r \<longleftrightarrow>
     r = (case match_lit ci_eq w inp of None \<Rightarrow> Fail | Some r' \<Rightarrow> Match r' (p + length w) [])"
  by (auto simp: matches_Suc)

lemma matches_Class:
  "matches (PClass rs) inp p r \<longleftrightarrow>
     r = (case inp of [] \<Rightarrow> Fail
          | c # r' \<Rightarrow> if list_ex (\<lambda>rg. in_range rg c) rs then Match r' (Suc p) [] else Fail)"
  by (auto simp: matches_Suc)

lemma matches_IClass:
  "matches (PIClass rs) inp p r \<longleftrightarrow>
     r = (case inp of [] \<Rightarrow> Fail
          | c # r' \<Rightarrow> if list_ex (\<lambda>rg. in_range_ci rg c) rs then Match r' (Suc p) [] else Fail)"
  by (auto simp: matches_Suc)

lemma matches_Dot:
  "matches PDot inp p r \<longleftrightarrow> r = (case inp of [] \<Rightarrow> Fail | c # r' \<Rightarrow> Match r' (Suc p) [])"
  by (auto simp: matches_Suc)

lemma matches_Act: "matches (PAct a) inp p r \<longleftrightarrow> r = Match inp p [EAction a]"
  by (auto simp: matches_Suc)

lemma matches_Seq_Nil: "matches (PSeq []) inp p r \<longleftrightarrow> r = Match inp p []"
  by (auto simp: matches_Suc)

lemma matches_Alt_Nil: "matches (PAlt []) inp p r \<longleftrightarrow> r = Fail"
  by (auto simp: matches_Suc)

lemma matches_Seq_Cons:
  "matches (PSeq (e # es)) inp p R \<longleftrightarrow>
     (matches e inp p Fail \<and> R = Fail)
     \<or> (\<exists>r q ev. matches e inp p (Match r q ev)
          \<and> ((matches (PSeq es) r q Fail \<and> R = Fail)
             \<or> (\<exists>r' q' ev'. matches (PSeq es) r q (Match r' q' ev') \<and> R = Match r' q' (ev @ ev'))))"
  (is "?L \<longleftrightarrow> ?R")
proof
  assume ?L
  then obtain n where "pmatch (Suc n) (PSeq (e # es)) inp p = Some R" by (auto simp: matches_Suc)
  then show ?R
    unfolding matches_def
    by (simp split: option.splits mresult.splits) blast+
next
  assume ?R
  then consider (a) "matches e inp p Fail" "R = Fail"
    | (b) r q ev where "matches e inp p (Match r q ev)" "matches (PSeq es) r q Fail" "R = Fail"
    | (c) r q ev r' q' ev' where "matches e inp p (Match r q ev)"
        "matches (PSeq es) r q (Match r' q' ev')" "R = Match r' q' (ev @ ev')"
    by blast
  then show ?L
  proof cases
    case a
    then obtain n where "pmatch n e inp p = Some Fail" by (auto simp: matches_def)
    then have "pmatch (Suc n) (PSeq (e # es)) inp p = Some R" using a by simp
    then show ?thesis by (rule matchesI)
  next
    case b
    from matches_two[OF b(1,2)] obtain n where
      "pmatch n e inp p = Some (Match r q ev)" "pmatch n (PSeq es) r q = Some Fail" by blast
    then have "pmatch (Suc n) (PSeq (e # es)) inp p = Some R" using b by simp
    then show ?thesis by (rule matchesI)
  next
    case c
    from matches_two[OF c(1,2)] obtain n where
      "pmatch n e inp p = Some (Match r q ev)" "pmatch n (PSeq es) r q = Some (Match r' q' ev')" by blast
    then have "pmatch (Suc n) (PSeq (e # es)) inp p = Some R" using c by simp
    then show ?thesis by (rule matchesI)
  qed
qed

lemma matches_Alt_Cons:
  "matches (PAlt (e # es)) inp p R \<longleftrightarrow>
     (matches e inp p Fail \<and> matches (PAlt es) inp p R)
     \<or> (\<exists>r q ev. matches e inp p (Match r q ev) \<and> R = Match r q ev)"
  (is "?L \<longleftrightarrow> ?R")
proof
  assume ?L
  then obtain n where "pmatch (Suc n) (PAlt (e # es)) inp p = Some R" by (auto simp: matches_Suc)
  then show ?R
    unfolding matches_def
    by (simp split: option.splits mresult.splits) blast+
next
  assume ?R
  then consider (a) "matches e inp p Fail" "matches (PAlt es) inp p R"
    | (b) r q ev where "matches e inp p (Match r q ev)" "R = Match r q ev"
    by blast
  then show ?L
  proof cases
    case a
    from matches_two[OF a(1,2)] obtain n where
      "pmatch n e inp p = Some Fail" "pmatch n (PAlt es) inp p = Some R" by blast
    then have "pmatch (Suc n) (PAlt (e # es)) inp p = Some R" by simp
    then show ?thesis by (rule matchesI)
  next
    case b
    then obtain n where "pmatch n e inp p = Some (Match r q ev)" by (auto simp: matches_def)
    then have "pmatch (Suc n) (PAlt (e # es)) inp p = Some R" using b by simp
    then show ?thesis by (rule matchesI)
  qed
qed

lemma matches_Star:
  "matches (PStar e) inp p R \<longleftrightarrow>
     (matches e inp p Fail \<and> R = Match inp p [])
     \<or> (\<exists>r q ev. matches e inp p (Match r q ev)
          \<and> ((matches (PStar e) r q Fail \<and> R = Fail)
             \<or> (\<exists>r' q' ev'. matches (PStar e) r q (Match r' q' ev') \<and> R = Match r' q' (ev @ ev'))))"
  (is "?L \<longleftrightarrow> ?R")
proof
  assume ?L
  then obtain n where "pmatch (Suc n) (PStar e) inp p = Some R" by (auto simp: matches_Suc)
  then show ?R
    unfolding matches_def
    by (simp split: option.splits mresult.splits) blast+
next
  assume ?R
  then consider (a) "matches e inp p Fail" "R = Match inp p []"
    | (b) r q ev where "matches e inp p (Match r q ev)" "matches (PStar e) r q Fail" "R = Fail"
    | (c) r q ev r' q' ev' where "matches e inp p (Match r q ev)"
        "matches (PStar e) r q (Match r' q' ev')" "R = Match r' q' (ev @ ev')"
    by blast
  then show ?L
  proof cases
    case a
    then obtain n where "pmatch n e inp p = Some Fail" by (auto simp: matches_def)
    then have "pmatch (Suc n) (PStar e) inp p = Some R" using a by simp
    then show ?thesis by (rule matchesI)
  next
    case b
    from matches_two[OF b(1,2)] obtain n where
      "pmatch n e inp p = Some (Match r q ev)" "pmatch n (PStar e) r q = Some Fail" by blast
    then have "pmatch (Suc n) (PStar e) inp p = Some R" using b by simp
    then show ?thesis by (rule matchesI)
  next
    case c
    from matches_two[OF c(1,2)] obtain n where
      "pmatch n e inp p = Some (Match r q ev)" "pmatch n (PStar e) r q = Some (Match r' q' ev')" by blast
    then have "pmatch (Suc n) (PStar e) inp p = Some R" using c by simp
    then show ?thesis by (rule matchesI)
  qed
qed

lemma matches_Plus: "matches (PPlus e) inp p R \<longleftrightarrow> matches (PSeq [e, PStar e]) inp p R"
  by (auto simp: matches_Suc[of "PPlus e"] intro: matchesI) (auto simp: matches_def)


lemma matches_Opt:
  "matches (POpt e) inp p R \<longleftrightarrow>
     (matches e inp p Fail \<and> R = Match inp p [])
     \<or> (\<exists>r q ev. matches e inp p (Match r q ev) \<and> R = Match r q ev)"
  (is "?L \<longleftrightarrow> ?R")
proof
  assume ?L
  then obtain n where "pmatch (Suc n) (POpt e) inp p = Some R" by (auto simp: matches_Suc)
  then show ?R
    unfolding matches_def
    by (simp split: option.splits mresult.splits) blast+
next
  assume ?R
  then obtain a where a: "matches e inp p a"
    "(a = Fail \<and> R = Match inp p []) \<or> (\<exists>r q ev. a = Match r q ev \<and> R = a)" by blast
  then obtain n where "pmatch n e inp p = Some a" by (auto simp: matches_def)
  then have "pmatch (Suc n) (POpt e) inp p = Some R" using a by auto
  then show ?L by (rule matchesI)
qed

lemma matches_Not:
  "matches (PNot e) inp p R \<longleftrightarrow>
     (matches e inp p Fail \<and> R = Match inp p [])
     \<or> (\<exists>r q ev. matches e inp p (Match r q ev) \<and> R = Fail)"
  (is "?L \<longleftrightarrow> ?R")
proof
  assume ?L
  then obtain n where "pmatch (Suc n) (PNot e) inp p = Some R" by (auto simp: matches_Suc)
  then show ?R
    unfolding matches_def
    by (simp split: option.splits mresult.splits) blast+
next
  assume ?R
  then obtain a where a: "matches e inp p a"
    "(a = Fail \<and> R = Match inp p []) \<or> (\<exists>r q ev. a = Match r q ev \<and> R = Fail)" by blast
  then obtain n where "pmatch n e inp p = Some a" by (auto simp: matches_def)
  then have "pmatch (Suc n) (PNot e) inp p = Some R" using a by auto
  then show ?L by (rule matchesI)
qed

lemma matches_Cap:
  "matches (PCap e) inp p R \<longleftrightarrow>
     (matches e inp p Fail \<and> R = Fail)
     \<or> (\<exists>r q ev. matches e inp p (Match r q ev) \<and> R = Match r q (ev @ [ECapture p q]))"
  (is "?L \<longleftrightarrow> ?R")
proof
  assume ?L
  then obtain n where "pmatch (Suc n) (PCap e) inp p = Some R" by (auto simp: matches_Suc)
  then show ?R
    unfolding matches_def
    by (simp split: option.splits mresult.splits) blast+
next
  assume ?R
  then obtain a where a: "matches e inp p a"
    "(a = Fail \<and> R = Fail) \<or> (\<exists>r q ev. a = Match r q ev \<and> R = Match r q (ev @ [ECapture p q]))" by blast
  then obtain n where "pmatch n e inp p = Some a" by (auto simp: matches_def)
  then have "pmatch (Suc n) (PCap e) inp p = Some R" using a by auto
  then show ?L by (rule matchesI)
qed

lemma matches_Seq_Act: "matches (PSeq [PAct a]) inp p R \<longleftrightarrow> R = Match inp p [EAction a]"
  by (auto simp: matches_Seq_Cons matches_Seq_Nil matches_Act)

lemma match_lit_consumes:
  "match_lit eq w inp = Some r \<Longrightarrow> \<exists>c. inp = c @ r \<and> length c = length w"
proof (induction eq w inp rule: match_lit.induct)
  case (3 eq x w c inp)
  then obtain c' where "inp = c' @ r" "length c' = length w" by (auto split: if_splits)
  then have "c # inp = (c # c') @ r \<and> length (c # c') = length (x # w)" by simp
  then show ?case by blast
qed auto

lemma pmatch_consumes:
  "pmatch n e inp p = Some (Match r q ev) \<Longrightarrow> \<exists>c. inp = c @ r \<and> q = p + length c"
proof (induction n e inp p arbitrary: r q ev rule: pmatch.induct)
  case (2 n w inp p)
  then show ?case by (auto split: option.splits dest: match_lit_consumes)
next
  case (3 n w inp p)
  then show ?case by (auto split: option.splits dest: match_lit_consumes)
next
  case (4 n rs inp p)
  then show ?case by (auto split: list.splits if_splits)
next
  case (5 n rs inp p)
  then show ?case by (auto split: list.splits if_splits)
next
  case (6 n inp p)
  then show ?case by (auto split: list.splits)
next
  case (8 n e es inp p)
  from "8.prems" obtain r1 q1 ev1 r2 q2 ev2 where
    a: "pmatch n e inp p = Some (Match r1 q1 ev1)"
    and b: "pmatch n (PSeq es) r1 q1 = Some (Match r2 q2 ev2)" and c: "r = r2" "q = q2"
    by (auto split: option.splits mresult.splits)
  from "8.IH"(1)[OF a] obtain c1 where c1: "inp = c1 @ r1" "q1 = p + length c1" by blast
  from "8.IH"(2)[OF a refl b] obtain c2 where c2: "r1 = c2 @ r2" "q2 = q1 + length c2" by blast
  have "inp = (c1 @ c2) @ r \<and> q = p + length (c1 @ c2)" using c1 c2 c by simp
  then show ?case by blast
next
  case (10 n e es inp p)
  then show ?case by (auto split: option.splits mresult.splits)
next
  case (11 n e inp p)
  show ?case
  proof (cases "pmatch n e inp p")
    case None then show ?thesis using "11.prems" by simp
  next
    case (Some a)
    show ?thesis
    proof (cases a)
      case Fail
      then show ?thesis using "11.prems" Some by simp
    next
      case (Match r1 q1 ev1)
      from "11.prems" Some Match obtain r2 q2 ev2 where
        b: "pmatch n (PStar e) r1 q1 = Some (Match r2 q2 ev2)" and c: "r = r2" "q = q2"
        by (auto split: option.splits mresult.splits)
      from "11.IH"(1)[OF Some[unfolded Match]] obtain c1 where c1: "inp = c1 @ r1" "q1 = p + length c1" by blast
      from "11.IH"(2)[OF Some Match b] obtain c2 where c2: "r1 = c2 @ r2" "q2 = q1 + length c2" by blast
      have "inp = (c1 @ c2) @ r \<and> q = p + length (c1 @ c2)" using c1 c2 c by simp
      then show ?thesis by blast
    qed
  qed
next
  case (13 n e inp p)
  then show ?case by (auto split: option.splits mresult.splits)
next
  case (14 n e inp p)
  then show ?case by (auto split: option.splits mresult.splits)
next
  case (15 n e inp p)
  then show ?case by (auto split: option.splits mresult.splits)
qed auto

lemma matches_consumes:
  "matches e inp p (Match r q ev) \<Longrightarrow> \<exists>c. inp = c @ r \<and> q = p + length c"
  unfolding matches_def using pmatch_consumes by blast

lemma remaining_matches:
  "remaining (pmatch n e inp p) = Some r \<Longrightarrow> \<exists>q evs. matches e inp p (Match r q evs)"
  by (cases "pmatch n e inp p" rule: remaining.cases) (auto simp: matches_def)

lemma ParseStmt_mono: "ParseStmt n s = Some r \<Longrightarrow> n \<le> m \<Longrightarrow> ParseStmt m s = Some r"
proof -
  assume a: "ParseStmt n s = Some r" and le: "n \<le> m"
  then obtain x where x: "pmatch n Statement s 0 = Some x"
    by (auto simp: ParseStmt_def split: option.splits)
  from pmatch_mono[OF x le] have "pmatch m Statement s 0 = Some x" .
  then show ?thesis using a x by (simp add: ParseStmt_def)
qed

lemma ParseStmt_det: "ParseStmt n s = Some r1 \<Longrightarrow> ParseStmt m s = Some r2 \<Longrightarrow> r1 = r2"
  using ParseStmt_mono[of n s r1 "max n m"] ParseStmt_mono[of m s r2 "max n m"] by simp

lemma matches_Not_Dot:
  "matches (PSeq [PNot PDot]) r q R \<longleftrightarrow> R = (if r = [] then Match r q [] else Fail)"
  by (cases r) (auto simp: matches_Seq_Cons matches_Seq_Nil matches_Not matches_Dot)

lemma matches_Statement:
  "matches Statement s p R \<longleftrightarrow>
     (matches StatementAlternatives s p Fail \<and> R = Fail)
     \<or> (\<exists>r q ev. matches StatementAlternatives s p (Match r q ev)
           \<and> R = (if r = [] then Match r q ev else Fail))"
  unfolding Statement_def matches_Seq_Cons[of StatementAlternatives] matches_Not_Dot
  by auto

lemma ParseStmt_outcome:
  "ParseStmt n s = map_option (outcome s) (pmatch n Statement s 0)"
  by (simp add: ParseStmt_def outcome_def split: option.splits mresult.splits)

lemma parses_iff: "parses s res \<longleftrightarrow> (\<exists>R. matches Statement s 0 R \<and> res = outcome s R)"
  unfolding parses_def matches_def ParseStmt_outcome by auto

lemma parses_det: "parses s r1 \<Longrightarrow> parses s r2 \<Longrightarrow> r1 = r2"
  unfolding parses_def using ParseStmt_det by blast

subsection \<open>Runs of single characters\<close>

lemma matches_Star_char_test:
  assumes "char_test e P"
  shows "matches (PStar e) inp p R \<longleftrightarrow>
           R = Match (dropWhile P inp) (p + length (takeWhile P inp)) []"
proof (induction inp arbitrary: p R)
  case Nil
  show ?case using assms by (subst matches_Star) (simp add: char_test_def)
next
  case (Cons c inp)
  show ?case using assms Cons[of "Suc p"]
    by (subst matches_Star) (auto simp add: char_test_def)
qed

lemma matches_Plus_char_test:
  assumes "char_test e P"
  shows "matches (PPlus e) inp p R \<longleftrightarrow>
           R = (case inp of [] \<Rightarrow> Fail
                | c # r \<Rightarrow> if P c then Match (dropWhile P r) (Suc p + length (takeWhile P r)) []
                           else Fail)"
  using assms
  by (cases inp)
     (auto simp: matches_Plus matches_Seq_Cons matches_Seq_Nil matches_Star_char_test[OF assms]
        char_test_def)

lemma dropWhile_all: "dropWhile P cs = [] \<longleftrightarrow> list_all P cs"
  by (induction cs) auto

lemma dropWhile_all': "[] = dropWhile P cs \<longleftrightarrow> list_all P cs"
  by (induction cs) auto

lemma takeWhile_all: "list_all P cs \<Longrightarrow> takeWhile P cs = cs"
  by (induction cs) auto

lemma takeWhile_run:
  "list_all P xs \<Longrightarrow> rest = [] \<or> \<not> P (hd rest) \<Longrightarrow>
   takeWhile P (xs @ rest) = xs \<and> dropWhile P (xs @ rest) = rest"
  by (induction xs) (cases rest; auto)+

lemma to_lower_a [simp]: "to_lower CHR ''a'' = CHR ''a''" "to_lower CHR ''z'' = CHR ''z''"
  by code_simp+

lemma to_upper_a [simp]: "to_upper CHR ''a'' = CHR ''A''" "to_upper CHR ''z'' = CHR ''Z''"
  by code_simp+

lemma in_range_ci_az: "in_range_ci (CHR ''a'', CHR ''z'') c \<longleftrightarrow> is_lower c \<or> is_upper c"
  by (simp add: in_range_ci_def in_range_def is_lower_def is_upper_def)

lemma char_test_letter: "char_test (PIClass [(CHR ''a'', CHR ''z'')]) (\<lambda>c. is_lower c \<or> is_upper c)"
  by (simp add: char_test_def matches_IClass in_range_ci_az split: list.splits)

lemma char_test_digit: "char_test (PClass [(CHR ''0'', CHR ''9'')]) is_digit"
  by (simp add: char_test_def matches_Class in_range_def is_digit_def split: list.splits)

lemma char_test_ident_char:
  "char_test (PAlt [PIClass [(CHR ''a'', CHR ''z'')], PClass [(CHR ''0'', CHR ''9'')], PLit ''_''])
     is_ident_char"
  unfolding char_test_def
proof (intro allI)
  fix inp p R
  show "matches (PAlt [PIClass [(CHR ''a'', CHR ''z'')], PClass [(CHR ''0'', CHR ''9'')], PLit ''_'']) inp p R
      \<longleftrightarrow> R = (case inp of [] \<Rightarrow> Fail | c # r \<Rightarrow> if is_ident_char c then Match r (Suc p) [] else Fail)"
    by (cases inp)
       (auto simp: matches_Alt_Cons matches_Alt_Nil matches_IClass matches_Class matches_Lit
          in_range_ci_az in_range_def is_ident_char_def is_digit_def)
qed

lemma char_test_space: "char_test (PAlt [PLit '' '', PLit [CHR 0x09], PLit [CHR 0x0A]]) is_space"
  unfolding char_test_def
proof (intro allI)
  fix inp p R
  show "matches (PAlt [PLit '' '', PLit [CHR 0x09], PLit [CHR 0x0A]]) inp p R
      \<longleftrightarrow> R = (case inp of [] \<Rightarrow> Fail | c # r \<Rightarrow> if is_space c then Match r (Suc p) [] else Fail)"
    by (cases inp) (auto simp: matches_Alt_Cons matches_Alt_Nil matches_Lit is_space_def)
qed

lemma matches_sp:
  "matches sp inp p R \<longleftrightarrow>
     R = Match (dropWhile is_space inp) (p + length (takeWhile is_space inp)) []"
  unfolding sp_def by (rule matches_Star_char_test[OF char_test_space])

subsection \<open>Parses of whole statements, evaluated\<close>

lemma parse_select_star:
  "ParseStmt 60 ''SELECT * FROM s''
     = Some (Inr (SelectStmt [Wildcard] (Present [''s'']) Absent Absent Absent))"
  by code_simp

lemma parse_precedence:
  "ParseStmt 100 ''SELECT a + 3 = b OR a = b AND b > 0''
   = Some (Inr (SelectStmt
        [BinaryOpAST Or
           (BinaryOpAST Equal (BinaryOpAST Plus (ColumnName ''a'') (NumericLiteral ''3''))
              (ColumnName ''b''))
           (BinaryOpAST And (BinaryOpAST Equal (ColumnName ''a'') (ColumnName ''b''))
              (BinaryOpAST Greater (ColumnName ''b'') (NumericLiteral ''0'')))]
        Absent Absent Absent Absent))"
  by code_simp

lemma parse_two_additions:
  "ParseStmt 100 ''SELECT a + b + c'' = Some (Inl SyntaxError)"
  "ParseStmt 100 ''SELECT (a + b) + c''
   = Some (Inr (SelectStmt
        [BinaryOpAST Plus (BinaryOpAST Plus (ColumnName ''a'') (ColumnName ''b''))
           (ColumnName ''c'')] Absent Absent Absent Absent))"
  by code_simp+

lemma parse_float:
  "ParseStmt 60 ''SELECT 3.14''
     = Some (Inr (SelectStmt [FloatLiteral ''3.14''] Absent Absent Absent Absent))"
  by code_simp

lemma parse_string_literal:
  "ParseStmt 60 (''SELECT '' @ [CHR 0x27, CHR ''i'', CHR ''t'', CHR 0x27, CHR 0x27, CHR ''s'', CHR 0x27])
     = Some (Inr (SelectStmt [StringLiteral [CHR ''i'', CHR ''t'', CHR 0x27, CHR ''s'']]
                    Absent Absent Absent Absent))"
  by code_simp

lemma parse_upper_case_identifiers:
  "ParseStmt 60 ''SELECT Abc FROM S''
     = Some (Inr (SelectStmt [ColumnName ''Abc''] (Present [''S'']) Absent Absent Absent))"
  by code_simp

lemma parse_not_equal:
  "ParseStmt 60 ''SELECT a != b''
     = Some (Inr (SelectStmt [BinaryOpAST NotEqual (ColumnName ''a'') (ColumnName ''b'')]
                    Absent Absent Absent Absent))"
  "ParseStmt 60 ''SELECT a <> b''
     = Some (Inr (SelectStmt [BinaryOpAST NotEqual (ColumnName ''a'') (ColumnName ''b'')]
                    Absent Absent Absent Absent))"
  by code_simp+

lemma trailing_semicolons_remain:
  "remaining (pmatch 60 StatementAlternatives ''SELECT * FROM s;;'' 0) = Some '';;''"
  by code_simp

lemma term_stops_after_one_operator:
  "remaining (pmatch 60 termExpr ''a + b + c'' 0) = Some ''+ c''"
  by code_simp

lemma where_absent: "match_lit ci_eq ''WHERE'' ''GROUP BY x'' = None"
  by code_simp

section \<open>Optional clauses\<close>

lemma matches_optional_clause:
  "matches (PSeq [PCap (POpt body), PAct a]) inp p R \<longleftrightarrow>
     (matches body inp p Fail \<and> R = Match inp p [ECapture p p, EAction a])
     \<or> (\<exists>r q ev. matches body inp p (Match r q ev)
           \<and> R = Match r q (ev @ [ECapture p q, EAction a]))"
  by (auto simp: matches_Seq_Cons[of "PCap _"] matches_Cap matches_Seq_Act matches_Opt)

lemma always_runs_optional: "always_runs (PSeq [PCap (POpt body), PAct a]) a"
  unfolding always_runs_def matches_optional_clause by auto

lemma absent_optional:
  "absent_gives_empty_span k (PSeq [PCap (POpt (PSeq (PILit k # es))), PAct a]) a"
  unfolding absent_gives_empty_span_def matches_optional_clause
  by (auto simp: matches_Seq_Cons[of "PILit _"])

lemma empty_span_no_fragments: "takeWhile (within b b) ps = []"
  by (cases ps) (auto simp: within_def)

lemma dropWhile_nothing: "takeWhile P ps = [] \<Longrightarrow> dropWhile P ps = ps"
  by (cases ps) (auto split: if_splits)

lemma pushes_markers:
  "pushes_marker AssembleFrom (FromAST Absent)"
  "pushes_marker AssembleFilter (FilterAST Absent)"
  "pushes_marker AssembleGrouping (GroupingAST Absent)"
  "pushes_marker AssembleHaving (HavingAST Absent)"
  "pushes_marker AssembleWindowedFrom (WindowedFromAST Absent)"
  by (simp_all add: pushes_marker_def AssembleFrom_def AssembleFilter_def AssembleGrouping_def
        AssembleHaving_def AssembleWindowedFrom_def collectElements_eq dropWhile_nothing)

text \<open>
  Claim C2. The rules of the five optional clauses (\<^verbatim>\<open>From\<close>, \<^verbatim>\<open>Filter\<close>,
  \<^verbatim>\<open>Grouping\<close>, \<^verbatim>\<open>Having\<close>, \<^verbatim>\<open>WindowedFrom\<close>) never fail, and every match of
  one ends with its capture and its reduction; where the keyword of the clause does not
  follow, the reduction runs on the empty span at that position. No fragment lies within
  an empty span, and each reduction pushes the empty-clause marker when no fragment lies
  within its span. So the statement node holds a marker or a populated node for every
  optional clause: \<^verbatim>\<open>SELECT * FROM s\<close> parses to a select statement whose filter,
  grouping and having are the markers.
\<close>

theorem optional_clauses_always_present:
  "always_runs From (Span AssembleFrom)
   \<and> always_runs Filter (Span AssembleFilter)
   \<and> always_runs Grouping (Span AssembleGrouping)
   \<and> always_runs Having (Span AssembleHaving)
   \<and> always_runs WindowedFrom (Span AssembleWindowedFrom)
   \<and> absent_gives_empty_span ''FROM'' From (Span AssembleFrom)
   \<and> absent_gives_empty_span ''WHERE'' Filter (Span AssembleFilter)
   \<and> absent_gives_empty_span ''GROUP'' Grouping (Span AssembleGrouping)
   \<and> absent_gives_empty_span ''HAVING'' Having (Span AssembleHaving)
   \<and> absent_gives_empty_span ''FROM'' WindowedFrom (Span AssembleWindowedFrom)
   \<and> (\<forall>b ps. takeWhile (within b b) ps = [])
   \<and> pushes_marker AssembleFrom (FromAST Absent)
   \<and> pushes_marker AssembleFilter (FilterAST Absent)
   \<and> pushes_marker AssembleGrouping (GroupingAST Absent)
   \<and> pushes_marker AssembleHaving (HavingAST Absent)
   \<and> pushes_marker AssembleWindowedFrom (WindowedFromAST Absent)
   \<and> ParseStmt 60 ''SELECT * FROM s''
       = Some (Inr (SelectStmt [Wildcard] (Present [''s'']) Absent Absent Absent))"
  using parse_select_star
  unfolding From_def Filter_def Grouping_def Having_def WindowedFrom_def
  by (simp add: always_runs_optional absent_optional empty_span_no_fragments pushes_markers)

theorem optional_clauses_always_present_witness:
  "matches Filter ''GROUP BY x'' 9
     (Match ''GROUP BY x'' 9 [ECapture 9 9, EAction (Span AssembleFilter)])
   \<and> AssembleFilter [\<lparr>el_begin = 9, el_end = 9, comp = FromAST Absent\<rparr>,
                     \<lparr>el_begin = 7, el_end = 9, comp = ProjectionsAST [ColumnName ''a'']\<rparr>] 9 9
     = Inr [\<lparr>el_begin = 9, el_end = 9, comp = FilterAST Absent\<rparr>,
            \<lparr>el_begin = 9, el_end = 9, comp = FromAST Absent\<rparr>,
            \<lparr>el_begin = 7, el_end = 9, comp = ProjectionsAST [ColumnName ''a'']\<rparr>]"
proof -
  have a: "matches (PILit ''WHERE'') ''GROUP BY x'' 9 Fail"
    by (simp only: matches_ILit where_absent option.case)
  let ?ps = "[\<lparr>el_begin = 9, el_end = 9, comp = FromAST Absent\<rparr>,
              \<lparr>el_begin = 7, el_end = 9, comp = ProjectionsAST [ColumnName ''a'']\<rparr>]"
  have f: "absent_gives_empty_span ''WHERE'' Filter (Span AssembleFilter)"
    and e: "\<forall>b ps. takeWhile (within b b) ps = []"
    and pm: "pushes_marker AssembleFilter (FilterAST Absent)"
    using optional_clauses_always_present by blast+
  from f a have m: "matches Filter ''GROUP BY x'' 9
     (Match ''GROUP BY x'' 9 [ECapture 9 9, EAction (Span AssembleFilter)])"
    unfolding absent_gives_empty_span_def by blast
  from e have "takeWhile (within 9 9) ?ps = []" by blast
  with pm have "AssembleFilter ?ps 9 9 = Inr (PushComponent ?ps 9 9 (FilterAST Absent))"
    unfolding pushes_marker_def by blast
  then show ?thesis using m by (simp add: PushComponent_def)
qed

section \<open>The expression ladder\<close>

lemma matches_op_operand:
  "matches (PSeq [oper, sp, x]) inp p (Match r q evs) \<longleftrightarrow>
     (\<exists>ra qa evo evx.
        matches oper inp p (Match ra qa evo)
        \<and> matches x (dropWhile is_space ra) (qa + length (takeWhile is_space ra)) (Match r q evx)
        \<and> evs = evo @ evx)"
  by (auto simp: matches_Seq_Cons[of oper] matches_Seq_Cons[of sp] matches_Seq_Cons[of x]
        matches_Seq_Nil matches_sp)

lemma matches_level_body:
  "matches (PSeq [x, sp, POpt t]) inp p (Match r q ev) \<longleftrightarrow>
     (\<exists>r1 q1 ev1.
        matches x inp p (Match r1 q1 ev1)
        \<and> ((matches t (dropWhile is_space r1) (q1 + length (takeWhile is_space r1)) Fail
            \<and> r = dropWhile is_space r1 \<and> q = q1 + length (takeWhile is_space r1)
            \<and> ev = ev1)
           \<or> (\<exists>ev3. matches t (dropWhile is_space r1) (q1 + length (takeWhile is_space r1))
                        (Match r q ev3)
                \<and> ev = ev1 @ ev3)))"
  (is "?L \<longleftrightarrow> ?R")
proof
  assume ?L
  then obtain r1 q1 ev1 ev' where a: "matches x inp p (Match r1 q1 ev1)"
    "matches (PSeq [sp, POpt t]) r1 q1 (Match r q ev')" "ev = ev1 @ ev'"
    by (auto simp: matches_Seq_Cons[of x])
  from a(2) have "matches (POpt t) (dropWhile is_space r1) (q1 + length (takeWhile is_space r1))
      (Match r q ev')"
    by (auto simp: matches_Seq_Cons[of sp] matches_Seq_Cons[of "POpt t"] matches_Seq_Nil matches_sp)
  then have "(matches t (dropWhile is_space r1) (q1 + length (takeWhile is_space r1)) Fail
            \<and> r = dropWhile is_space r1 \<and> q = q1 + length (takeWhile is_space r1) \<and> ev' = [])
     \<or> matches t (dropWhile is_space r1) (q1 + length (takeWhile is_space r1)) (Match r q ev')"
    by (auto simp: matches_Opt)
  then show ?R using a(1,3) by auto
next
  assume ?R
  then obtain r1 q1 ev1 ev' where a: "matches x inp p (Match r1 q1 ev1)" "ev = ev1 @ ev'"
    "(matches t (dropWhile is_space r1) (q1 + length (takeWhile is_space r1)) Fail
            \<and> r = dropWhile is_space r1 \<and> q = q1 + length (takeWhile is_space r1) \<and> ev' = [])
     \<or> matches t (dropWhile is_space r1) (q1 + length (takeWhile is_space r1)) (Match r q ev')"
    by auto
  from a(3) have "matches (POpt t) (dropWhile is_space r1) (q1 + length (takeWhile is_space r1))
      (Match r q ev')"
    by (auto simp: matches_Opt)
  then have "matches (PSeq [sp, POpt t]) r1 q1 (Match r q ev')"
    by (auto simp: matches_Seq_Cons[of sp] matches_Seq_Cons[of "POpt t"] matches_Seq_Nil matches_sp)
  then show ?L using a(1,2) by (auto simp: matches_Seq_Cons[of x])
qed

lemma matches_binary_level:
  "matches (binary_level x oper) inp p (Match r q evs) \<longleftrightarrow>
     (\<exists>r1 q1 ev1.
        matches x inp p (Match r1 q1 ev1)
        \<and> ((matches (PSeq [oper, sp, x]) (dropWhile is_space r1)
               (q1 + length (takeWhile is_space r1)) Fail
            \<and> r = dropWhile is_space r1 \<and> q = q1 + length (takeWhile is_space r1)
            \<and> evs = ev1 @ [ECapture p q, EAction (Span AssembleBinaryOperation)])
           \<or> (\<exists>ra qa evo evx.
                matches oper (dropWhile is_space r1) (q1 + length (takeWhile is_space r1))
                  (Match ra qa evo)
                \<and> matches x (dropWhile is_space ra) (qa + length (takeWhile is_space ra))
                    (Match r q evx)
                \<and> evs = ev1 @ evo @ evx @ [ECapture p q, EAction (Span AssembleBinaryOperation)])))"
proof -
  have "matches (binary_level x oper) inp p (Match r q evs) \<longleftrightarrow>
      (\<exists>ev. matches (PSeq [x, sp, POpt (PSeq [oper, sp, x])]) inp p (Match r q ev)
            \<and> evs = ev @ [ECapture p q, EAction (Span AssembleBinaryOperation)])"
    unfolding binary_level_def
    by (auto simp: matches_Seq_Cons[of "PCap _"] matches_Cap matches_Seq_Act)
  moreover have "matches (PSeq [x, sp, POpt (PSeq [oper, sp, x])]) inp p (Match r q ev) \<longleftrightarrow>
     (\<exists>r1 q1 ev1.
        matches x inp p (Match r1 q1 ev1)
        \<and> ((matches (PSeq [oper, sp, x]) (dropWhile is_space r1)
               (q1 + length (takeWhile is_space r1)) Fail
            \<and> r = dropWhile is_space r1 \<and> q = q1 + length (takeWhile is_space r1)
            \<and> ev = ev1)
           \<or> (\<exists>ev3. matches (PSeq [oper, sp, x]) (dropWhile is_space r1)
                        (q1 + length (takeWhile is_space r1)) (Match r q ev3)
                \<and> ev = ev1 @ ev3)))" for ev
    by (rule matches_level_body)
  moreover have "matches (PSeq [oper, sp, x]) r2 q2 (Match r q ev3) \<longleftrightarrow>
     (\<exists>ra qa evo evx.
        matches oper r2 q2 (Match ra qa evo)
        \<and> matches x (dropWhile is_space ra) (qa + length (takeWhile is_space ra)) (Match r q evx)
        \<and> ev3 = evo @ evx)" for r2 q2 ev3
    by (rule matches_op_operand)
  ultimately show ?thesis
    by (simp only:) (rule iffI; (elim exE conjE disjE; simp; blast))
qed

lemma levels:
  "orExpr = binary_level andExpr Or_rule"
  "andExpr = binary_level comparisonExpr And_rule"
  "comparisonExpr = binary_level termExpr ComparisonOp"
  "termExpr = binary_level productExpr PlusMinusOp"
  "productExpr = binary_level baseExpr MultDivOp"
  by (simp_all add: binary_level_def orExpr_def andExpr_def comparisonExpr_def termExpr_def
        productExpr_def)

text \<open>
  Claim C3. Each of the five binary levels of the grammar is one level in the spec's words,
  over the next-tighter level and its own operators. A level matches exactly when its
  first operand matches and then either no operator with a second operand follows, or
  exactly one operator and one more operand follow: at most one operator application per
  level. \<^verbatim>\<open>a + 3 = b OR a = b AND b > 0\<close> parses with \<open>Or\<close> outermost, a comparison on
  its left, an \<open>And\<close> of two comparisons on its right, and \<open>Plus\<close> below \<open>Equal\<close>. A
  second operator of the same level is not absorbed (\<^verbatim>\<open>a + b + c\<close> is a syntax
  error) unless the first application is parenthesized.
\<close>

theorem expression_precedence:
  "orExpr = binary_level andExpr Or_rule
   \<and> andExpr = binary_level comparisonExpr And_rule
   \<and> comparisonExpr = binary_level termExpr ComparisonOp
   \<and> termExpr = binary_level productExpr PlusMinusOp
   \<and> productExpr = binary_level baseExpr MultDivOp
   \<and> (\<forall>x oper inp p r q evs.
        matches (binary_level x oper) inp p (Match r q evs) \<longleftrightarrow>
          (\<exists>r1 q1 ev1.
             matches x inp p (Match r1 q1 ev1)
             \<and> ((matches (PSeq [oper, sp, x]) (dropWhile is_space r1)
                    (q1 + length (takeWhile is_space r1)) Fail
                 \<and> r = dropWhile is_space r1 \<and> q = q1 + length (takeWhile is_space r1)
                 \<and> evs = ev1 @ [ECapture p q, EAction (Span AssembleBinaryOperation)])
                \<or> (\<exists>ra qa evo evx.
                     matches oper (dropWhile is_space r1) (q1 + length (takeWhile is_space r1))
                       (Match ra qa evo)
                     \<and> matches x (dropWhile is_space ra) (qa + length (takeWhile is_space ra))
                         (Match r q evx)
                     \<and> evs = ev1 @ evo @ evx
                             @ [ECapture p q, EAction (Span AssembleBinaryOperation)]))))
   \<and> ParseStmt 100 ''SELECT a + 3 = b OR a = b AND b > 0''
       = Some (Inr (SelectStmt
            [BinaryOpAST Or
               (BinaryOpAST Equal (BinaryOpAST Plus (ColumnName ''a'') (NumericLiteral ''3''))
                  (ColumnName ''b''))
               (BinaryOpAST And (BinaryOpAST Equal (ColumnName ''a'') (ColumnName ''b''))
                  (BinaryOpAST Greater (ColumnName ''b'') (NumericLiteral ''0'')))]
            Absent Absent Absent Absent))
   \<and> ParseStmt 100 ''SELECT a + b + c'' = Some (Inl SyntaxError)
   \<and> ParseStmt 100 ''SELECT (a + b) + c''
       = Some (Inr (SelectStmt
            [BinaryOpAST Plus (BinaryOpAST Plus (ColumnName ''a'') (ColumnName ''b''))
               (ColumnName ''c'')] Absent Absent Absent Absent))"
  using levels matches_binary_level parse_precedence parse_two_additions
  by (intro conjI allI) 

theorem expression_precedence_witness:
  "(\<exists>q evs. matches termExpr ''a + b + c'' 0 (Match ''+ c'' q evs))
   \<and> (\<exists>r1 q1 ev1. matches productExpr ''a + b + c'' 0 (Match r1 q1 ev1))"
proof -
  from remaining_matches[OF term_stops_after_one_operator] obtain q evs where
    m: "matches termExpr ''a + b + c'' 0 (Match ''+ c'' q evs)" by blast
  have t: "termExpr = binary_level productExpr PlusMinusOp"
    using expression_precedence by blast
  have "\<exists>r1 q1 ev1. matches productExpr ''a + b + c'' 0 (Match r1 q1 ev1)"
    using expression_precedence m[unfolded t] by blast
  then show ?thesis using m by blast
qed

section \<open>The top-level rule\<close>

text \<open>
  Claim C4. A parse returns an AST only if the statement alternatives consumed the whole
  input; and when they match with input left over, the parse is a syntax error and
  returns no AST.
\<close>

theorem Statement_full_consumption:
  "(\<forall>ast. parses s (Inr ast) \<longrightarrow>
      (\<exists>evs. matches StatementAlternatives s 0 (Match [] (length s) evs)))
   \<and> (\<forall>r q evs. matches StatementAlternatives s 0 (Match r q evs) \<and> r \<noteq> [] \<longrightarrow>
        parses s (Inl SyntaxError) \<and> (\<forall>ast. \<not> parses s (Inr ast)))"
proof (intro conjI allI impI)
  fix ast assume "parses s (Inr ast)"
  then obtain R where R: "matches Statement s 0 R" "Inr ast = outcome s R"
    by (auto simp: parses_iff)
  then obtain r q ev where m: "matches StatementAlternatives s 0 (Match r q ev)" "r = []"
    by (auto simp: matches_Statement outcome_def split: if_splits)
  from matches_consumes[OF m(1)] m(2) have "q = length s" by auto
  then show "\<exists>evs. matches StatementAlternatives s 0 (Match [] (length s) evs)"
    using m by blast
next
  fix r q evs
  assume a: "matches StatementAlternatives s 0 (Match r q evs) \<and> r \<noteq> []"
  then have "matches Statement s 0 Fail" by (auto simp: matches_Statement)
  then show "parses s (Inl SyntaxError)" by (auto simp: parses_iff outcome_def)
  then show "\<not> parses s (Inr ast)" for ast using parses_det by blast
qed

theorem Statement_full_consumption_witness:
  "parses ''SELECT * FROM s;;'' (Inl SyntaxError)
   \<and> \<not> parses ''SELECT * FROM s;;'' (Inr (SelectStmt [Wildcard] (Present [''s'']) Absent Absent Absent))
   \<and> parses ''SELECT * FROM s'' (Inr (SelectStmt [Wildcard] (Present [''s'']) Absent Absent Absent))
   \<and> (\<exists>evs. matches StatementAlternatives ''SELECT * FROM s'' 0 (Match [] 15 evs))"
proof -
  from remaining_matches[OF trailing_semicolons_remain] obtain q evs where
    m: "matches StatementAlternatives ''SELECT * FROM s;;'' 0 (Match '';;'' q evs)" by blast
  have p: "parses ''SELECT * FROM s'' (Inr (SelectStmt [Wildcard] (Present [''s'']) Absent Absent Absent))"
    unfolding parses_def using parse_select_star by blast
  have a: "parses ''SELECT * FROM s;;'' (Inl SyntaxError)
      \<and> (\<forall>ast. \<not> parses ''SELECT * FROM s;;'' (Inr ast))"
    using Statement_full_consumption[of "''SELECT * FROM s;;''"] m by blast
  have "\<exists>evs. matches StatementAlternatives ''SELECT * FROM s'' 0
          (Match [] (length ''SELECT * FROM s'') evs)"
    using Statement_full_consumption[of "''SELECT * FROM s''"] p by blast
  moreover have "length ''SELECT * FROM s'' = 15" by simp
  ultimately have b: "\<exists>evs. matches StatementAlternatives ''SELECT * FROM s'' 0 (Match [] 15 evs)"
    by metis
  show ?thesis using a b p by blast
qed

section \<open>Literals and operators\<close>

lemma digit_facts: "is_digit c \<Longrightarrow> c \<noteq> CHR ''-'' \<and> c \<noteq> CHR ''.''"
  "\<not> is_digit CHR ''.''"
  by (auto simp: is_digit_def)

lemma matches_digits1:
  assumes "list_all is_digit ds" "ds \<noteq> []" "rest = [] \<or> \<not> is_digit (hd rest)"
  shows "matches (PPlus (PClass [(CHR ''0'', CHR ''9'')])) (ds @ rest) p R
           \<longleftrightarrow> R = Match rest (p + length ds) []"
proof -
  from assms obtain d ds' where ds: "ds = d # ds'" "is_digit d" "list_all is_digit ds'"
    by (cases ds) auto
  show ?thesis
    using takeWhile_run[OF ds(3) assms(3)] ds
    by (simp add: matches_Plus_char_test[OF char_test_digit])
qed

lemma matches_opt_minus:
  "matches (POpt (PLit ''-'')) inp p R \<longleftrightarrow>
     R = (case inp of [] \<Rightarrow> Match inp p []
          | c # r \<Rightarrow> if c = CHR ''-'' then Match r (Suc p) [] else Match inp p [])"
  by (cases inp) (auto simp: matches_Opt matches_Lit)

lemma matches_float_body:
  assumes "sg = [] \<or> sg = ''-''" "list_all is_digit ds1" "ds1 \<noteq> []"
    "list_all is_digit ds2" "ds2 \<noteq> []" "rest = [] \<or> \<not> is_digit (hd rest)"
  shows "matches (PSeq [POpt (PLit ''-''), PPlus (PClass [(CHR ''0'', CHR ''9'')]),
                       PLit ''.'', PPlus (PClass [(CHR ''0'', CHR ''9'')])])
           (sg @ ds1 @ CHR ''.'' # ds2 @ rest) p R
         \<longleftrightarrow> R = Match rest (p + length sg + length ds1 + 1 + length ds2) []"
proof -
  have d1: "matches (PPlus (PClass [(CHR ''0'', CHR ''9'')])) (ds1 @ CHR ''.'' # ds2 @ rest) q R'
           \<longleftrightarrow> R' = Match (CHR ''.'' # ds2 @ rest) (q + length ds1) []" for q R'
    using matches_digits1[OF assms(2,3), of "CHR ''.'' # ds2 @ rest"] by (simp add: digit_facts)
  have d2: "matches (PPlus (PClass [(CHR ''0'', CHR ''9'')])) (ds2 @ rest) q R'
           \<longleftrightarrow> R' = Match rest (q + length ds2) []" for q R'
    using matches_digits1[OF assms(4,5,6)] by simp
  from assms(2,3) obtain d ds' where ds: "ds1 = d # ds'" "is_digit d" by (cases ds1) auto
  then have nm: "d \<noteq> CHR ''-''" using digit_facts by blast
  have opt: "matches (POpt (PLit ''-'')) (sg @ ds1 @ CHR ''.'' # ds2 @ rest) p R'
           \<longleftrightarrow> R' = Match (ds1 @ CHR ''.'' # ds2 @ rest) (p + length sg) []" for R'
    using assms(1) ds nm by (auto simp: matches_opt_minus)
  show ?thesis
    by (simp add: matches_Seq_Cons opt d1 d2 matches_Lit matches_Seq_Nil)
qed

lemma matches_int_body:
  assumes "sg = [] \<or> sg = ''-''" "list_all is_digit ds1" "ds1 \<noteq> []"
    "rest = [] \<or> \<not> is_digit (hd rest)"
  shows "matches (PSeq [POpt (PLit ''-''), PPlus (PClass [(CHR ''0'', CHR ''9'')])])
           (sg @ ds1 @ rest) p R
         \<longleftrightarrow> R = Match rest (p + length sg + length ds1) []"
proof -
  have d1: "matches (PPlus (PClass [(CHR ''0'', CHR ''9'')])) (ds1 @ rest) q R'
           \<longleftrightarrow> R' = Match rest (q + length ds1) []" for q R'
    using matches_digits1[OF assms(2,3,4)] by simp
  from assms(2,3) obtain d ds' where ds: "ds1 = d # ds'" "is_digit d" by (cases ds1) auto
  then have nm: "d \<noteq> CHR ''-''" using digit_facts by blast
  have opt: "matches (POpt (PLit ''-'')) (sg @ ds1 @ rest) p R'
           \<longleftrightarrow> R' = Match (ds1 @ rest) (p + length sg) []" for R'
    using assms(1) ds nm by (auto simp: matches_opt_minus)
  show ?thesis
    by (simp add: matches_Seq_Cons opt d1 matches_Seq_Nil)
qed

text \<open>
  Claim C5. On an input that begins with a decimal float (an optional minus, digits, a
  dot, digits, and then no further digit), the rule \<^verbatim>\<open>Literal\<close>, which tries
  \<^verbatim>\<open>FloatLiteral\<close> first, matches the whole float and pushes one float literal node
  with its text; \<^verbatim>\<open>NumericLiteral\<close> alone would stop in front of the dot.
\<close>

theorem Literal_float_before_integer:
  assumes "sg = [] \<or> sg = ''-''" "list_all is_digit ds1" "ds1 \<noteq> []"
    "list_all is_digit ds2" "ds2 \<noteq> []" "rest = [] \<or> \<not> is_digit (hd rest)"
  shows "matches Literal_rule (sg @ ds1 @ ''.'' @ ds2 @ rest) p
           (Match rest (p + length (sg @ ds1 @ ''.'' @ ds2))
              [ECapture p (p + length (sg @ ds1 @ ''.'' @ ds2)),
               EAction (PushText NewFloatLiteral)])
       \<and> matches NumericLiteral_rule (sg @ ds1 @ ''.'' @ ds2 @ rest) p
           (Match (''.'' @ ds2 @ rest) (p + length (sg @ ds1))
              [ECapture p (p + length (sg @ ds1)), EAction (PushText NewNumericLiteral)])
       \<and> PushText NewFloatLiteral (pre @ sg @ ds1 @ ''.'' @ ds2 @ rest)
            (length pre) (length pre + length (sg @ ds1 @ ''.'' @ ds2)) ps
           = Inr (PushComponent ps (length pre) (length pre + length (sg @ ds1 @ ''.'' @ ds2))
                    (Expr (FloatLiteral (sg @ ds1 @ ''.'' @ ds2))))"
proof (intro conjI)
  show "matches Literal_rule (sg @ ds1 @ ''.'' @ ds2 @ rest) p
           (Match rest (p + length (sg @ ds1 @ ''.'' @ ds2))
              [ECapture p (p + length (sg @ ds1 @ ''.'' @ ds2)),
               EAction (PushText NewFloatLiteral)])"
    unfolding Literal_rule_def FloatLiteral_rule_def
    by (simp add: matches_Alt_Cons matches_Seq_Cons[of "PCap _"] matches_Cap
          matches_float_body[OF assms] matches_Seq_Act)
  have "matches (PSeq [POpt (PLit ''-''), PPlus (PClass [(CHR ''0'', CHR ''9'')])])
           (sg @ ds1 @ (CHR ''.'' # ds2 @ rest)) p R
         \<longleftrightarrow> R = Match (CHR ''.'' # ds2 @ rest) (p + length sg + length ds1) []" for R
    by (rule matches_int_body[OF assms(1,2,3)]) (simp add: digit_facts)
  then show "matches NumericLiteral_rule (sg @ ds1 @ ''.'' @ ds2 @ rest) p
           (Match (''.'' @ ds2 @ rest) (p + length (sg @ ds1))
              [ECapture p (p + length (sg @ ds1)), EAction (PushText NewNumericLiteral)])"
    unfolding NumericLiteral_rule_def
    by (simp add: matches_Seq_Cons[of "PCap _"] matches_Cap matches_Seq_Act)
  show "PushText NewFloatLiteral (pre @ sg @ ds1 @ ''.'' @ ds2 @ rest)
            (length pre) (length pre + length (sg @ ds1 @ ''.'' @ ds2)) ps
           = Inr (PushComponent ps (length pre) (length pre + length (sg @ ds1 @ ''.'' @ ds2))
                    (Expr (FloatLiteral (sg @ ds1 @ ''.'' @ ds2))))"
    by (simp add: PushText_def substr_def NewFloatLiteral_def)
qed

theorem Literal_float_before_integer_witness:
  "matches Literal_rule ''3.14'' 7
     (Match [] 11 [ECapture 7 11, EAction (PushText NewFloatLiteral)])
   \<and> matches NumericLiteral_rule ''3.14'' 7
     (Match ''.14'' 8 [ECapture 7 8, EAction (PushText NewNumericLiteral)])
   \<and> PushText NewFloatLiteral ''SELECT 3.14'' 7 11 []
       = Inr [\<lparr>el_begin = 7, el_end = 11, comp = Expr (FloatLiteral ''3.14'')\<rparr>]"
proof -
  have h: "[] = [] \<or> [] = ''-''" "list_all is_digit ''3''" "''3'' \<noteq> []"
    "list_all is_digit ''14''" "''14'' \<noteq> []" "[] = [] \<or> \<not> is_digit (hd [])"
    by (simp_all add: is_digit_def)
  from Literal_float_before_integer[OF h, of 7 "''SELECT ''" "[]"]
  show ?thesis by (simp add: PushComponent_def eval_nat_numeral)
qed

lemma matches_ident:
  "matches ident inp p R \<longleftrightarrow>
     R = (case inp of [] \<Rightarrow> Fail
          | c # r \<Rightarrow> if is_lower c \<or> is_upper c
                     then Match (dropWhile is_ident_char r)
                            (Suc p + length (takeWhile is_ident_char r)) []
                     else Fail)"
  unfolding ident_def
  by (cases inp)
     (auto simp: matches_Seq_Cons matches_Seq_Nil matches_IClass in_range_ci_az
        matches_Star_char_test[OF char_test_ident_char])

lemma ident_accepts: "matches ident w p (Match [] (p + length w) []) \<longleftrightarrow> code_ident w"
proof (cases w)
  case Nil
  then show ?thesis by (simp add: matches_ident code_ident_def)
next
  case (Cons c cs)
  show ?thesis
  proof (cases "(is_lower c \<or> is_upper c) \<and> list_all is_ident_char cs")
    case True
    then show ?thesis using Cons
      by (simp add: matches_ident code_ident_def dropWhile_all dropWhile_all' takeWhile_all)
  next
    case False
    then show ?thesis using Cons
      by (auto simp add: matches_ident code_ident_def dropWhile_all dropWhile_all')
  qed
qed

lemma ident_position:
  "matches (PSeq [PCap ident, PAct a]) w p
      (Match [] (p + length w) [ECapture p (p + length w), EAction a])
   \<longleftrightarrow> code_ident w"
proof -
  have "matches (PSeq [PCap ident, PAct a]) w p
      (Match [] (p + length w) [ECapture p (p + length w), EAction a])
     \<longleftrightarrow> matches ident w p (Match [] (p + length w) [])"
    by (auto simp: matches_Seq_Cons matches_Seq_Nil matches_Cap matches_Act
          dest: matches_det)
  then show ?thesis by (simp add: ident_accepts)
qed

lemma code_ident_examples: "code_ident ''Abc''" "code_ident ''a_1''" "\<not> code_ident ''1a''"
  "\<not> spec_ident ''Abc''"
  by (simp_all add: code_ident_def spec_ident_def is_lower_def is_upper_def is_digit_def
        is_ident_char_def)

text \<open>
  Claim C6, as amended. The rule \<^verbatim>\<open>ident\<close> matches a whole token exactly when the
  token begins with an ASCII letter of either case and continues with letters of either
  case, digits or underscores; and each of the six identifier positions (relation, column
  name, function name, source or sink name, source or sink type, parameter key) matches
  a whole token, capturing it and pushing its node, under the same condition.
\<close>

theorem identifier_form:
  "(matches ident w p (Match [] (p + length w) []) \<longleftrightarrow> code_ident w)
   \<and> (matches Relation_rule w p
        (Match [] (p + length w) [ECapture p (p + length w), EAction (PushText NewRelation)])
       \<longleftrightarrow> code_ident w)
   \<and> (matches ColumnName_rule w p
        (Match [] (p + length w) [ECapture p (p + length w), EAction (PushText NewColumnName)])
       \<longleftrightarrow> code_ident w)
   \<and> (matches Function w p
        (Match [] (p + length w) [ECapture p (p + length w), EAction (PushText FuncName)])
       \<longleftrightarrow> code_ident w)
   \<and> (matches SourceSinkName_rule w p
        (Match [] (p + length w) [ECapture p (p + length w), EAction (PushText SourceSinkName)])
       \<longleftrightarrow> code_ident w)
   \<and> (matches SourceSinkType_rule w p
        (Match [] (p + length w) [ECapture p (p + length w), EAction (PushText SourceSinkType)])
       \<longleftrightarrow> code_ident w)
   \<and> (matches SourceSinkParamKey_rule w p
        (Match [] (p + length w)
           [ECapture p (p + length w), EAction (PushText SourceSinkParamKey)])
       \<longleftrightarrow> code_ident w)"
  unfolding Relation_rule_def ColumnName_rule_def Function_def SourceSinkName_rule_def
    SourceSinkType_rule_def SourceSinkParamKey_rule_def
  by (simp only: ident_accepts ident_position)

theorem identifier_form_witness:
  "matches ident ''a_1'' 7 (Match [] 10 [])
   \<and> matches Relation_rule ''Abc'' 0
        (Match [] 3 [ECapture 0 3, EAction (PushText NewRelation)])
   \<and> \<not> matches ident ''1a'' 0 (Match [] 2 [])"
  using identifier_form[of "''a_1''" 7] identifier_form[of "''Abc''" 0]
    identifier_form[of "''1a''" 0] code_ident_examples
  by (simp add: eval_nat_numeral)

text \<open>
  The claim as stated restricts identifiers to lower case letters; the grammar's class
  \<open>[[a-z]]\<close> does not: \<^verbatim>\<open>Abc\<close> is an identifier of the parser.
\<close>

theorem identifier_form_counterexample:
  "matches ident ''Abc'' 0 (Match [] (0 + length ''Abc'') []) \<and> \<not> spec_ident ''Abc''"
  using ident_accepts[of "''Abc''" 0] code_ident_examples by simp

lemma unescape_escape: "unescape (escape v) = v"
proof (induction v)
  case Nil
  then show ?case by simp
next
  case (Cons c v)
  show ?case
  proof (cases "c = CHR 0x27")
    case True
    then show ?thesis using Cons by simp
  next
    case False
    then show ?thesis using Cons by (cases "escape v") auto
  qed
qed

lemma NewStringLiteral_quote: "NewStringLiteral (quote v) = Expr (StringLiteral v)"
  by (simp add: NewStringLiteral_def quote_def unescape_escape butlast_append)

lemma ci_eq_quote [simp]: "ci_eq (CHR 0x27) c \<longleftrightarrow> c = CHR 0x27"
  by (simp add: ci_eq_def to_lower_def to_upper_def)

lemma matches_string_char:
  "matches (PAlt [PILit [CHR 0x27, CHR 0x27], PSeq [PNot (PILit [CHR 0x27]), PDot]]) inp p R \<longleftrightarrow>
     R = (case inp of
            [] \<Rightarrow> Fail
          | c # r \<Rightarrow>
              if c = CHR 0x27
              then (case r of [] \<Rightarrow> Fail
                    | c' # r' \<Rightarrow> if c' = CHR 0x27 then Match r' (p + 2) [] else Fail)
              else Match r (Suc p) [])"
  by (cases inp; cases "tl inp")
     (auto simp: matches_Alt_Cons matches_Alt_Nil matches_Seq_Cons matches_Seq_Nil
        matches_ILit matches_Not matches_Dot)

lemma matches_string_body:
  assumes "rest = [] \<or> hd rest \<noteq> CHR 0x27"
  shows "matches (PStar (PAlt [PILit [CHR 0x27, CHR 0x27], PSeq [PNot (PILit [CHR 0x27]), PDot]]))
           (escape v @ CHR 0x27 # rest) p R
         \<longleftrightarrow> R = Match (CHR 0x27 # rest) (p + length (escape v)) []"
proof (induction v arbitrary: p R)
  case Nil
  show ?case using assms
    by (subst matches_Star) (cases rest; auto simp: matches_string_char)
next
  case (Cons c v)
  show ?case
    by (subst matches_Star) (auto simp: matches_string_char Cons)
qed

text \<open>
  Claim C7. The text of a string literal with the value \<open>v\<close> (not followed by a further
  quote) is matched as a whole by \<^verbatim>\<open>StringLiteral\<close>, and its action pushes a string
  literal node whose value is \<open>v\<close>: the delimiters are removed and each doubled quote is
  one quote.
\<close>

theorem StringLiteral_value:
  assumes "rest = [] \<or> hd rest \<noteq> CHR 0x27"
  shows "matches StringLiteral_rule (quote v @ rest) p
           (Match rest (p + length (quote v))
              [ECapture p (p + length (quote v)), EAction (PushText NewStringLiteral)])
       \<and> PushText NewStringLiteral (pre @ quote v @ rest)
            (length pre) (length pre + length (quote v)) ps
           = Inr (PushComponent ps (length pre) (length pre + length (quote v))
                    (Expr (StringLiteral v)))"
proof
  have q: "in_range (CHR 0x27, CHR 0x27) c \<longleftrightarrow> c = CHR 0x27" for c
    by (auto simp: in_range_def)
  show "matches StringLiteral_rule (quote v @ rest) p
           (Match rest (p + length (quote v))
              [ECapture p (p + length (quote v)), EAction (PushText NewStringLiteral)])"
    unfolding StringLiteral_rule_def quote_def
    by (simp add: matches_Seq_Cons[of "PCap _"] matches_Cap matches_Seq_Act
          matches_Seq_Cons[of "PClass _"] matches_Seq_Cons[of "PStar _"] matches_Class q
          matches_string_body[OF assms] matches_Seq_Nil)
  have "substr (pre @ quote v @ rest) (length pre) (length pre + length (quote v)) = quote v"
    by (simp add: substr_def)
  then show "PushText NewStringLiteral (pre @ quote v @ rest)
            (length pre) (length pre + length (quote v)) ps
           = Inr (PushComponent ps (length pre) (length pre + length (quote v))
                    (Expr (StringLiteral v)))"
    by (simp add: PushText_def NewStringLiteral_quote)
qed

theorem StringLiteral_value_witness:
  "matches StringLiteral_rule [CHR 0x27, CHR ''i'', CHR ''t'', CHR 0x27, CHR 0x27, CHR ''s'', CHR 0x27] 7
      (Match [] 14 [ECapture 7 14, EAction (PushText NewStringLiteral)])
   \<and> PushText NewStringLiteral
        (''SELECT '' @ [CHR 0x27, CHR ''i'', CHR ''t'', CHR 0x27, CHR 0x27, CHR ''s'', CHR 0x27]) 7 14 []
      = Inr [\<lparr>el_begin = 7, el_end = 14,
              comp = Expr (StringLiteral [CHR ''i'', CHR ''t'', CHR 0x27, CHR ''s''])\<rparr>]"
proof -
  have h: "[] = [] \<or> hd [] \<noteq> CHR 0x27" by simp
  from StringLiteral_value[OF h, of "[CHR ''i'', CHR ''t'', CHR 0x27, CHR ''s'']" 7 "''SELECT ''" "[]"]
  show ?thesis by (simp add: quote_def PushComponent_def eval_nat_numeral)
qed

lemma ci_eq_simps [simp]:
  "ci_eq CHR ''='' c \<longleftrightarrow> c = CHR ''=''"
  "ci_eq CHR ''!'' c \<longleftrightarrow> c = CHR ''!''"
  "ci_eq CHR ''<'' c \<longleftrightarrow> c = CHR ''<''"
  "ci_eq CHR ''>'' c \<longleftrightarrow> c = CHR ''>''"
  by (simp_all add: ci_eq_def to_lower_def to_upper_def)

lemma ComparisonOp_bang:
  "matches ComparisonOp (CHR ''!'' # CHR ''='' # rest) p R \<longleftrightarrow>
     R = Match rest (p + 2) [ECapture p (p + 2), EAction (Push (Op NotEqual))]"
  by (simp add: ComparisonOp_def Equal_rule_def NotEqual_rule_def matches_Seq_Cons
        matches_Seq_Nil matches_Alt_Cons matches_Cap matches_Act matches_ILit)

lemma ComparisonOp_ltgt:
  "matches ComparisonOp (CHR ''<'' # CHR ''>'' # rest) p R \<longleftrightarrow>
     R = Match rest (p + 2) [ECapture p (p + 2), EAction (Push (Op NotEqual))]"
  by (simp add: ComparisonOp_def Equal_rule_def NotEqual_rule_def matches_Seq_Cons
        matches_Seq_Nil matches_Alt_Cons matches_Cap matches_Act matches_ILit)

text \<open>
  Claim C8. At every position of every input, \<^verbatim>\<open>ComparisonOp\<close> matches \<^verbatim>\<open>!=\<close> and
  \<^verbatim>\<open>< >\<close> written together alike: two characters, the same capture and the same push of
  the operator \<open>NotEqual\<close>; and two statements that differ in the spelling of the
  operator only parse to the same AST.
\<close>

theorem NotEqual_synonyms:
  "matches ComparisonOp (''!='' @ rest) p
     (Match rest (p + 2) [ECapture p (p + 2), EAction (Push (Op NotEqual))])
   \<and> matches ComparisonOp (''<>'' @ rest) p
     (Match rest (p + 2) [ECapture p (p + 2), EAction (Push (Op NotEqual))])
   \<and> ParseStmt 60 ''SELECT a != b''
       = Some (Inr (SelectStmt [BinaryOpAST NotEqual (ColumnName ''a'') (ColumnName ''b'')]
                      Absent Absent Absent Absent))
   \<and> ParseStmt 60 ''SELECT a <> b''
       = Some (Inr (SelectStmt [BinaryOpAST NotEqual (ColumnName ''a'') (ColumnName ''b'')]
                      Absent Absent Absent Absent))"
  using parse_not_equal by (simp add: ComparisonOp_bang ComparisonOp_ltgt)

theorem NotEqual_synonyms_witness:
  "matches ComparisonOp ''!= b'' 9
     (Match '' b'' 11 [ECapture 9 11, EAction (Push (Op NotEqual))])
   \<and> matches ComparisonOp ''<> b'' 9
     (Match '' b'' 11 [ECapture 9 11, EAction (Push (Op NotEqual))])"
  using NotEqual_synonyms[of "'' b''" 9] by simp

section \<open>Termination of the matcher on the grammar\<close>


lemma returns_mono: "returns_below (Suc k) e \<Longrightarrow> returns_below k e"
  by (simp add: returns_below_def)










































section \<open>Properties of the struct decoder\<close>











end
